theory Spec2Isabelle
  imports Main
begin

section \<open>JavaScript values\<close>

text \<open>
  The three components (\<^verbatim>\<open>note.js\<close>, \<^verbatim>\<open>noteComponent.js\<close> and the unnamed third
  file) read the fields of the records returned by the remote \<^verbatim>\<open>getNotes\<close> call without
  checking their types. A field is therefore a JavaScript value: absent (\<^verbatim>\<open>undefined\<close>),
  \<^verbatim>\<open>null\<close>, a boolean, a number or a string. Numbers are restricted to integers and strings
  to characters below 256, so that \<^verbatim>\<open>.length\<close> is the length of the list. A nested object
  (the \<^verbatim>\<open>CreatedBy\<close> user) is only ever copied by the code and is held as such a value.
\<close>

datatype jsval = JUndefined | JNull | JBool bool | JNum int | JStr string

text \<open>ToBoolean: what \<^verbatim>\<open>!x\<close>, \<^verbatim>\<open>x && y\<close> and \<^verbatim>\<open>if (x)\<close> test.\<close>

fun truthy :: "jsval \<Rightarrow> bool" where
  "truthy JUndefined = False"
| "truthy JNull = False"
| "truthy (JBool b) = b"
| "truthy (JNum n) = (n \<noteq> 0)"
| "truthy (JStr s) = (s \<noteq> [])"

text \<open>The decimal digits of a number, as ToString writes a non-negative integer.\<close>

definition digit_char :: "nat \<Rightarrow> char" where
  "digit_char d = ''0123456789'' ! d"

fun string_of_nat :: "nat \<Rightarrow> string" where
  "string_of_nat n =
     (if n < 10 then [digit_char n]
      else string_of_nat (n div 10) @ [digit_char (n mod 10)])"

definition string_of_int :: "int \<Rightarrow> string" where
  "string_of_int i = (if i < 0 then CHR ''-'' # string_of_nat (nat (- i)) else string_of_nat (nat i))"

text \<open>ToString, as a template literal and string concatenation apply it.\<close>

fun js_toString :: "jsval \<Rightarrow> string" where
  "js_toString JUndefined = ''undefined''"
| "js_toString JNull = ''null''"
| "js_toString (JBool b) = (if b then ''true'' else ''false'')"
| "js_toString (JNum n) = string_of_int n"
| "js_toString (JStr s) = s"

text \<open>
  \<^verbatim>\<open>Array.prototype.join\<close>: an element that is \<^verbatim>\<open>undefined\<close> or \<^verbatim>\<open>null\<close> contributes
  the empty string, every other element its ToString.
\<close>

fun join_element :: "jsval \<Rightarrow> string" where
  "join_element JUndefined = []"
| "join_element JNull = []"
| "join_element v = js_toString v"

fun js_join :: "string \<Rightarrow> jsval list \<Rightarrow> string" where
  "js_join sep [] = []"
| "js_join sep [v] = join_element v"
| "js_join sep (v # w # vs) = join_element v @ sep @ js_join sep (w # vs)"

text \<open>
  What a \<^verbatim>\<open>throw\<close> or a rejected promise carries. \<^verbatim>\<open>ApexError b m\<close> is an error object
  whose \<^verbatim>\<open>body.message\<close> is \<open>b\<close> and whose \<^verbatim>\<open>message\<close> is \<open>m\<close>; \<^verbatim>\<open>TypeError\<close> is raised
  by the runtime on a property read of \<^verbatim>\<open>undefined\<close> or \<^verbatim>\<open>null\<close>; \<^verbatim>\<open>Thrown\<close> is any
  primitive value used as a rejection reason.
\<close>

datatype js_error = TypeError string | ApexError jsval jsval | Thrown jsval

text \<open>A settled remote call, and the state of a promise.\<close>

datatype 'a outcome = Succeeds 'a | Fails js_error

datatype 'a promise = Pending | Fulfilled 'a | Rejected js_error

section \<open>Data model\<close>

text \<open>A record of the flat list returned by \<^verbatim>\<open>getNotes\<close>; \<open>note_Id\<close> is its \<^verbatim>\<open>Id\<close>.\<close>

record note_record =
  note_Id :: jsval
  Title__c :: jsval
  Category__c :: jsval
  Body__c :: jsval
  Parent_Note__c :: jsval
  Is_Reply__c :: jsval
  Thread_Count__c :: jsval
  CreatedDate :: jsval
  CreatedBy :: jsval

text \<open>An element of the array \<^verbatim>\<open>getLinkedRecords\<close> resolves to.\<close>

record linked_record =
  linked_Id :: jsval
  Name :: jsval
  RelatedObject :: jsval

text \<open>
  The argument of \<^verbatim>\<open>processNotes\<close>: an array of records, or any other value
  (\<^verbatim>\<open>Array.isArray\<close> is false of every \<open>jsval\<close>).
\<close>

datatype rawNotes = NotArray jsval | Array "note_record list"

fun rawNotes_truthy :: "rawNotes \<Rightarrow> bool" where
  "rawNotes_truthy (NotArray v) = truthy v"
| "rawNotes_truthy (Array notes) = True"

fun isArray :: "rawNotes \<Rightarrow> bool" where
  "isArray (NotArray v) = False"
| "isArray (Array notes) = True"

fun elements :: "rawNotes \<Rightarrow> note_record list" where
  "elements (NotArray v) = []"
| "elements (Array notes) = notes"

text \<open>
  The reply object literal of \<^verbatim>\<open>note.js\<close> and \<^verbatim>\<open>noteComponent.js\<close>: the nine copied fields
  and the three enrichment fields. \<^verbatim>\<open>linkedRecords: null\<close> is \<open>None\<close>.
\<close>

record replyNote = note_record +
  relatedRecordsDisplay :: string
  linkedRecords :: "linked_record list option"
  isLoading :: bool

text \<open>The parent object literal of \<^verbatim>\<open>note.js\<close>.\<close>

record parentNote = replyNote +
  titleWithDate :: string
  replies :: "replyNote list"
  repliesExpanded :: bool
  repliesSectionClass :: string

text \<open>The parent object literal of \<^verbatim>\<open>noteComponent.js\<close>: the same fields and three more.\<close>

record nc_parentNote = parentNote +
  formattedDateTime :: string
  repliesButtonLabel :: string
  isExpanded :: bool

text \<open>
  The parent object literal of the third file: the nine copied fields and \<^verbatim>\<open>replies\<close>;
  its replies are plain copies of the records.
\<close>

record plain_parentNote = note_record +
  plain_replies :: "note_record list"

text \<open>The nine fields every node copies from its record.\<close>

definition record_of :: "'a note_record_scheme \<Rightarrow> note_record" where
  "record_of n =
     \<lparr>note_Id = note_Id n, Title__c = Title__c n, Category__c = Category__c n,
      Body__c = Body__c n, Parent_Note__c = Parent_Note__c n, Is_Reply__c = Is_Reply__c n,
      Thread_Count__c = Thread_Count__c n, CreatedDate = CreatedDate n,
      CreatedBy = CreatedBy n\<rparr>"

section \<open>The two passes of processNotes\<close>

text \<open>
  All three files group the flat list with the same two \<^verbatim>\<open>forEach\<close> loops over
  \<^verbatim>\<open>rawNotes\<close>; they differ in the object literals only. \<open>noteMap\<close> maps an \<^verbatim>\<open>Id\<close> to the
  parent object last stored under it; the object is shared with \<open>parentNotes\<close>, so the
  map holds its index there. \<open>mk\<close> builds the parent object and may throw.
\<close>

fun firstPass ::
  "(note_record \<Rightarrow> js_error + 'p) \<Rightarrow> note_record list \<Rightarrow>
   (jsval \<rightharpoonup> nat) \<times> 'p list \<Rightarrow> js_error + ((jsval \<rightharpoonup> nat) \<times> 'p list)" where
  "firstPass mk [] st = Inr st"
| "firstPass mk (note # rest) (noteMap, parentNotes) =
     (if \<not> truthy (Is_Reply__c note) then
        (case mk note of
           Inl e \<Rightarrow> Inl e
         | Inr parentNote \<Rightarrow>
             firstPass mk rest
               (noteMap(note_Id note \<mapsto> length parentNotes), parentNotes @ [parentNote]))
      else firstPass mk rest (noteMap, parentNotes))"

text \<open>
  The second loop: \<^verbatim>\<open>noteMap.get(note.Parent_Note__c).replies.push(replyNote)\<close> for a reply
  whose parent link is a key of the map; \<open>push\<close> is that update of the parent object.
\<close>

fun secondPass ::
  "('p \<Rightarrow> note_record \<Rightarrow> 'p) \<Rightarrow> (jsval \<rightharpoonup> nat) \<Rightarrow> note_record list \<Rightarrow> 'p list \<Rightarrow> 'p list" where
  "secondPass push noteMap [] parentNotes = parentNotes"
| "secondPass push noteMap (note # rest) parentNotes =
     (if truthy (Is_Reply__c note) then
        (case noteMap (Parent_Note__c note) of
           Some i \<Rightarrow>
             secondPass push noteMap rest (parentNotes[i := push (parentNotes ! i) note])
         | None \<Rightarrow> secondPass push noteMap rest parentNotes)
      else secondPass push noteMap rest parentNotes)"

subsection \<open>The third file: processNotes without state or enrichment\<close>

definition plain_mkParent :: "note_record \<Rightarrow> js_error + plain_parentNote" where
  "plain_mkParent note =
     Inr \<lparr>note_Id = note_Id note, Title__c = Title__c note, Category__c = Category__c note,
          Body__c = Body__c note, Parent_Note__c = Parent_Note__c note,
          Is_Reply__c = Is_Reply__c note, Thread_Count__c = Thread_Count__c note,
          CreatedDate = CreatedDate note, CreatedBy = CreatedBy note,
          plain_replies = []\<rparr>"

definition plain_mkReply :: "note_record \<Rightarrow> note_record" where
  "plain_mkReply note =
     \<lparr>note_Id = note_Id note, Title__c = Title__c note, Category__c = Category__c note,
      Body__c = Body__c note, Parent_Note__c = Parent_Note__c note,
      Is_Reply__c = Is_Reply__c note, Thread_Count__c = Thread_Count__c note,
      CreatedDate = CreatedDate note, CreatedBy = CreatedBy note\<rparr>"

definition plain_push :: "plain_parentNote \<Rightarrow> note_record \<Rightarrow> plain_parentNote" where
  "plain_push parent note = parent\<lparr>plain_replies := plain_replies parent @ [plain_mkReply note]\<rparr>"

text \<open>\<^verbatim>\<open>processNotes(rawNotes)\<close> of the third file; \<open>Inl\<close> is an exception thrown.\<close>

definition plain_processNotes :: "rawNotes \<Rightarrow> js_error + plain_parentNote list" where
  "plain_processNotes rawNotes =
     (if \<not> rawNotes_truthy rawNotes \<or> \<not> isArray rawNotes then Inr []
      else
        (case firstPass plain_mkParent (elements rawNotes) (Map.empty, []) of
           Inl e \<Rightarrow> Inl e
         | Inr (noteMap, parentNotes) \<Rightarrow>
             Inr (secondPass plain_push noteMap (elements rawNotes) parentNotes)))"

subsection \<open>The component state\<close>

text \<open>
  The tracked fields \<^verbatim>\<open>loadNotes\<close> and \<^verbatim>\<open>processNotes\<close> read or write. \<open>this_notes\<close> is
  \<^verbatim>\<open>this.notes\<close>, the tree last published; \<open>loading\<close> is the component's own \<^verbatim>\<open>isLoading\<close>;
  \<open>toasts\<close> collects the events \<^verbatim>\<open>showToast\<close> dispatches. The third file has no
  \<^verbatim>\<open>expandedSections\<close> and no \<^verbatim>\<open>isLoading\<close>; it leaves them alone. The expansion flags of
  the notes in \<^verbatim>\<open>this.notes\<close> are booleans: the components only ever store \<^verbatim>\<open>false\<close>, \<^verbatim>\<open>true\<close>
  or a negation there.
\<close>

record toast =
  toast_title :: string
  toast_message :: string
  toast_variant :: string

record 'p component =
  recordId :: jsval
  objectApiName :: jsval
  this_notes :: "'p list"
  expandedSections :: "jsval list"
  loading :: bool
  toasts :: "toast list"

text \<open>
  What the component does not decide: how \<^verbatim>\<open>toLocaleDateString\<close> renders a creation date
  (it returns a string for every argument, \<^verbatim>\<open>Invalid Date\<close> for one it cannot parse), how
  \<^verbatim>\<open>getNotes\<close> stands, how the \<open>k\<close>-th call of \<^verbatim>\<open>getLinkedRecords\<close> made by one
  \<^verbatim>\<open>loadAllRelatedRecords\<close> settles if it does, and which of these calls have settled so
  far, in the order they did.
\<close>

record env =
  toLocaleDateString :: "jsval \<Rightarrow> string"
  getNotes :: "rawNotes promise"
  getLinkedRecords :: "nat \<Rightarrow> linked_record list option outcome"
  settled :: "nat list"

definition getErrorMessage :: "js_error \<Rightarrow> jsval" where
  "getErrorMessage error =
     (case error of
        ApexError body_message message \<Rightarrow>
          (if truthy body_message then body_message
           else if truthy message then message
           else JStr ''Unknown error occurred'')
      | TypeError message \<Rightarrow>
          (if message \<noteq> [] then JStr message else JStr ''Unknown error occurred'')
      | Thrown v \<Rightarrow> JStr ''Unknown error occurred'')"

definition showToast :: "string \<Rightarrow> string \<Rightarrow> string \<Rightarrow> 'p component \<Rightarrow> 'p component" where
  "showToast title message variant this =
     this\<lparr>toasts := toasts this @
       [\<lparr>toast_title = title, toast_message = message, toast_variant = variant\<rparr>]\<rparr>"

subsection \<open>note.js: the parent and reply objects\<close>

text \<open>
  \<^verbatim>\<open>note.Title__c.length\<close>: a TypeError on \<^verbatim>\<open>undefined\<close> and \<^verbatim>\<open>null\<close> (with the message V8
  gives it), the length of a string, and \<^verbatim>\<open>undefined\<close> (\<open>None\<close>) on a boolean or a number.
\<close>

fun title_length :: "jsval \<Rightarrow> js_error + nat option" where
  "title_length JUndefined =
     Inl (TypeError (''Cannot read properties of undefined (reading '' @ [CHR 0x27] @
                     ''length'' @ [CHR 0x27] @ '')''))"
| "title_length JNull =
     Inl (TypeError (''Cannot read properties of null (reading '' @ [CHR 0x27] @
                     ''length'' @ [CHR 0x27] @ '')''))"
| "title_length (JStr s) = Inr (Some (length s))"
| "title_length (JBool b) = Inr None"
| "title_length (JNum n) = Inr None"

text \<open>
  \<^verbatim>\<open>' '.repeat(Math.max(0, 80 - note.Title__c.length))\<close>. With the length \<^verbatim>\<open>undefined\<close> the
  difference and the maximum are NaN, and \<^verbatim>\<open>repeat(NaN)\<close> is the empty string.
\<close>

definition titlePadding :: "jsval \<Rightarrow> js_error + string" where
  "titlePadding title =
     (case title_length title of
        Inl e \<Rightarrow> Inl e
      | Inr None \<Rightarrow> Inr []
      | Inr (Some l) \<Rightarrow> Inr (replicate (nat (max 0 (80 - int l))) CHR '' ''))"

text \<open>The class of the replies section, open or closed.\<close>

definition sectionClass :: "bool \<Rightarrow> string" where
  "sectionClass expanded =
     (if expanded then ''slds-section slds-is-open'' else ''slds-section slds-is-close'')"

text \<open>
  \<^verbatim>\<open>currentExpansionStates\<close>: one \<^verbatim>\<open>set(note.Id, note.repliesExpanded)\<close> for each note of
  \<^verbatim>\<open>this.notes\<close>, when that array is not empty.
\<close>

definition currentExpansionStates :: "'a parentNote_scheme list \<Rightarrow> (jsval \<rightharpoonup> bool)" where
  "currentExpansionStates prior =
     (if length prior > 0
      then foldl (\<lambda>m note. m(note_Id note \<mapsto> repliesExpanded note)) Map.empty prior
      else Map.empty)"

text \<open>\<^verbatim>\<open>m.get(k) || false\<close> on a map of booleans.\<close>

definition get_or_false :: "(jsval \<rightharpoonup> bool) \<Rightarrow> jsval \<Rightarrow> bool" where
  "get_or_false m k = (case m k of Some b \<Rightarrow> b | None \<Rightarrow> False)"

text \<open>\<^verbatim>\<open>m.get(k) !== false\<close> on a map of booleans: \<^verbatim>\<open>undefined !== false\<close> holds.\<close>

definition get_not_false :: "(jsval \<rightharpoonup> bool) \<Rightarrow> jsval \<Rightarrow> bool" where
  "get_not_false m k = (case m k of Some b \<Rightarrow> b | None \<Rightarrow> True)"

definition note_mkParent ::
  "(jsval \<Rightarrow> string) \<Rightarrow> (jsval \<rightharpoonup> bool) \<Rightarrow> note_record \<Rightarrow> js_error + parentNote" where
  "note_mkParent formatDate expansionStates note =
     (let wasExpanded = get_or_false expansionStates (note_Id note);
          formattedDate = formatDate (CreatedDate note)
      in case titlePadding (Title__c note) of
           Inl e \<Rightarrow> Inl e
         | Inr padding \<Rightarrow>
             Inr \<lparr>note_Id = note_Id note, Title__c = Title__c note,
                  Category__c = Category__c note, Body__c = Body__c note,
                  Parent_Note__c = Parent_Note__c note, Is_Reply__c = Is_Reply__c note,
                  Thread_Count__c = Thread_Count__c note, CreatedDate = CreatedDate note,
                  CreatedBy = CreatedBy note,
                  relatedRecordsDisplay = [], linkedRecords = None, isLoading = True,
                  titleWithDate = js_toString (Title__c note) @ padding @ formattedDate,
                  replies = [], repliesExpanded = wasExpanded,
                  repliesSectionClass = sectionClass wasExpanded\<rparr>)"

definition mkReply :: "note_record \<Rightarrow> replyNote" where
  "mkReply note =
     \<lparr>note_Id = note_Id note, Title__c = Title__c note, Category__c = Category__c note,
      Body__c = Body__c note, Parent_Note__c = Parent_Note__c note,
      Is_Reply__c = Is_Reply__c note, Thread_Count__c = Thread_Count__c note,
      CreatedDate = CreatedDate note, CreatedBy = CreatedBy note,
      relatedRecordsDisplay = [], linkedRecords = None, isLoading = True\<rparr>"

definition push_reply :: "'a parentNote_scheme \<Rightarrow> note_record \<Rightarrow> 'a parentNote_scheme" where
  "push_reply parent note = parent\<lparr>replies := replies parent @ [mkReply note]\<rparr>"

text \<open>
  The synchronous part of \<^verbatim>\<open>processNotes\<close> in \<^verbatim>\<open>note.js\<close>, from the two passes to the
  assignment of \<^verbatim>\<open>this.expandedSections\<close> (one \<^verbatim>\<open>push(note.Id)\<close> beside each
  \<^verbatim>\<open>parentNotes.push\<close>). An exception leaves \<open>this\<close> as it was.
\<close>

definition note_build ::
  "(jsval \<Rightarrow> string) \<Rightarrow> note_record list \<Rightarrow> parentNote component \<Rightarrow>
   js_error + (parentNote list \<times> parentNote component)" where
  "note_build formatDate rawNotes this =
     (case firstPass (note_mkParent formatDate (currentExpansionStates (this_notes this))) rawNotes
             (Map.empty, []) of
        Inl e \<Rightarrow> Inl e
      | Inr (noteMap, parentNotes) \<Rightarrow>
          Inr (secondPass push_reply noteMap rawNotes parentNotes,
               this\<lparr>expandedSections := map note_Id parentNotes\<rparr>))"

subsection \<open>noteComponent.js: the parent object and the button labels\<close>

text \<open>
  \<^verbatim>\<open>currentRepliesExpansion\<close> and \<^verbatim>\<open>currentNoteExpansion\<close>: for each note of \<^verbatim>\<open>this.notes\<close>,
  \<^verbatim>\<open>set(note.Id, note.repliesExpanded || false)\<close> and
  \<^verbatim>\<open>set(note.Id, note.isExpanded !== false)\<close>.
\<close>

definition currentRepliesExpansion :: "'a parentNote_scheme list \<Rightarrow> (jsval \<rightharpoonup> bool)" where
  "currentRepliesExpansion prior =
     (if length prior > 0
      then foldl (\<lambda>m note. m(note_Id note \<mapsto> (repliesExpanded note \<or> False))) Map.empty prior
      else Map.empty)"

definition currentNoteExpansion :: "nc_parentNote list \<Rightarrow> (jsval \<rightharpoonup> bool)" where
  "currentNoteExpansion prior =
     (if length prior > 0
      then foldl (\<lambda>m note. m(note_Id note \<mapsto> (isExpanded note \<noteq> False))) Map.empty prior
      else Map.empty)"

text \<open>The parent object literal; nothing in it can throw.\<close>

definition nc_mkParent ::
  "(jsval \<Rightarrow> string) \<Rightarrow> (jsval \<rightharpoonup> bool) \<Rightarrow> (jsval \<rightharpoonup> bool) \<Rightarrow> note_record \<Rightarrow>
   js_error + nc_parentNote" where
  "nc_mkParent formatDate repliesExpansion noteExpansion note =
     (let repliesExpanded = get_or_false repliesExpansion (note_Id note);
          noteExpanded = get_not_false noteExpansion (note_Id note);
          formattedDate = formatDate (CreatedDate note)
      in Inr \<lparr>note_Id = note_Id note, Title__c = Title__c note,
              Category__c = Category__c note, Body__c = Body__c note,
              Parent_Note__c = Parent_Note__c note, Is_Reply__c = Is_Reply__c note,
              Thread_Count__c = Thread_Count__c note, CreatedDate = CreatedDate note,
              CreatedBy = CreatedBy note,
              relatedRecordsDisplay = [], linkedRecords = None, isLoading = True,
              titleWithDate = js_toString (Title__c note) @ '' - '' @ formattedDate,
              replies = [], repliesExpanded = repliesExpanded,
              repliesSectionClass = sectionClass repliesExpanded,
              formattedDateTime = formattedDate, repliesButtonLabel = [],
              isExpanded = noteExpanded\<rparr>)"

text \<open>The loop after the second pass: a label for every parent that has replies.\<close>

definition setButtonLabel :: "nc_parentNote \<Rightarrow> nc_parentNote" where
  "setButtonLabel note =
     (if length (replies note) > 0
      then note\<lparr>repliesButtonLabel :=
             string_of_nat (length (replies note)) @ '' '' @
             (if length (replies note) = 1 then ''reply'' else ''replies'')\<rparr>
      else note)"

text \<open>
  The synchronous part of \<^verbatim>\<open>processNotes\<close> in \<^verbatim>\<open>noteComponent.js\<close>, up to the assignment of
  \<^verbatim>\<open>this.expandedSections\<close>.
\<close>

definition nc_build ::
  "(jsval \<Rightarrow> string) \<Rightarrow> note_record list \<Rightarrow> nc_parentNote component \<Rightarrow>
   js_error + (nc_parentNote list \<times> nc_parentNote component)" where
  "nc_build formatDate rawNotes this =
     (case firstPass
             (nc_mkParent formatDate (currentRepliesExpansion (this_notes this))
                (currentNoteExpansion (this_notes this)))
             rawNotes (Map.empty, []) of
        Inl e \<Rightarrow> Inl e
      | Inr (noteMap, parentNotes) \<Rightarrow>
          Inr (map setButtonLabel (secondPass push_reply noteMap rawNotes parentNotes),
               this\<lparr>expandedSections := map note_Id parentNotes\<rparr>))"

section \<open>Enrichment\<close>

text \<open>
  \<^verbatim>\<open>loadRelatedRecordsForNote(note)\<close> once its \<^verbatim>\<open>await getLinkedRecords\<close> has settled: the
  \<^verbatim>\<open>try\<close> body on a result (\<open>None\<close> is a \<^verbatim>\<open>null\<close> or \<^verbatim>\<open>undefined\<close> result), the \<^verbatim>\<open>catch\<close>
  body on a rejection. Both end in \<^verbatim>\<open>note.isLoading = false\<close>, and the function's own
  promise is then fulfilled: nothing escapes the \<^verbatim>\<open>catch\<close>.
\<close>

definition loadRelatedRecordsForNote ::
  "linked_record list option outcome \<Rightarrow> 'a replyNote_scheme \<Rightarrow> 'a replyNote_scheme" where
  "loadRelatedRecordsForNote fetched note =
     (case fetched of
        Succeeds linked \<Rightarrow>
          (if linked \<noteq> None \<and> length (the linked) > 0 then
             note\<lparr>relatedRecordsDisplay := js_join '', '' (map Name (the linked)),
                  linkedRecords := linked, isLoading := False\<rparr>
           else
             note\<lparr>relatedRecordsDisplay := ''Current record only'',
                  linkedRecords := Some [], isLoading := False\<rparr>)
      | Fails error \<Rightarrow>
          note\<lparr>relatedRecordsDisplay := ''Error loading related records'',
               linkedRecords := Some [], isLoading := False\<rparr>)"

text \<open>
  The objects \<^verbatim>\<open>loadAllRelatedRecords\<close> passes on: parent \<open>i\<close> of the array, or reply \<open>j\<close>
  of parent \<open>i\<close>. \<open>issue\<close> lists them in the order of the two nested \<^verbatim>\<open>for\<close> loops, one
  element of \<^verbatim>\<open>promises\<close> each.
\<close>

datatype target = Parent nat | Reply nat nat

fun issue :: "nat \<Rightarrow> 'a parentNote_scheme list \<Rightarrow> target list" where
  "issue i [] = []"
| "issue i (note # rest) =
     Parent i # map (Reply i) [0..<length (replies note)] @ issue (Suc i) rest"

fun settle_target ::
  "linked_record list option outcome \<Rightarrow> target \<Rightarrow> 'a parentNote_scheme list \<Rightarrow>
   'a parentNote_scheme list" where
  "settle_target fetched (Parent i) parentNotes =
     parentNotes[i := loadRelatedRecordsForNote fetched (parentNotes ! i)]"
| "settle_target fetched (Reply i j) parentNotes =
     parentNotes[i := (parentNotes ! i)
       \<lparr>replies := (replies (parentNotes ! i))
          [j := loadRelatedRecordsForNote fetched (replies (parentNotes ! i) ! j)]\<rparr>]"

text \<open>
  The \<open>k\<close>-th call settles: if its promise is still pending, the rest of
  \<^verbatim>\<open>loadRelatedRecordsForNote\<close> runs on its object and the promise is fulfilled. A promise
  settles once; a call that was never issued does nothing.
\<close>

definition settle_call ::
  "(nat \<Rightarrow> linked_record list option outcome) \<Rightarrow>
   'a parentNote_scheme list \<times> unit promise list \<Rightarrow> nat \<Rightarrow>
   'a parentNote_scheme list \<times> unit promise list" where
  "settle_call fetch st k =
     (case st of (parentNotes, promises) \<Rightarrow>
        if k < length promises \<and> promises ! k = Pending then
          (settle_target (fetch k) (issue 0 parentNotes ! k) parentNotes,
           promises[k := Fulfilled ()])
        else (parentNotes, promises))"

text \<open>
  \<^verbatim>\<open>Promise.all\<close>: rejected when an element is, fulfilled when all are, pending otherwise.
\<close>

fun promise_all :: "'a promise list \<Rightarrow> 'a list promise" where
  "promise_all [] = Fulfilled []"
| "promise_all (p # ps) =
     (case p of
        Rejected e \<Rightarrow> Rejected e
      | Pending \<Rightarrow> (case promise_all ps of Rejected e \<Rightarrow> Rejected e | _ \<Rightarrow> Pending)
      | Fulfilled x \<Rightarrow>
          (case promise_all ps of
             Fulfilled xs \<Rightarrow> Fulfilled (x # xs)
           | Pending \<Rightarrow> Pending
           | Rejected e \<Rightarrow> Rejected e))"

text \<open>
  \<^verbatim>\<open>loadAllRelatedRecords(notes)\<close>: every call is issued at once; the result is the state
  of the returned promise and of the objects once the calls of \<open>settled env\<close> have settled.
\<close>

definition loadAllRelatedRecords ::
  "env \<Rightarrow> 'a parentNote_scheme list \<Rightarrow> unit promise \<times> 'a parentNote_scheme list" where
  "loadAllRelatedRecords env parentNotes =
     (case foldl (settle_call (getLinkedRecords env))
             (parentNotes, map (\<lambda>t. Pending) (issue 0 parentNotes)) (settled env) of
        (parentNotes', promises) \<Rightarrow>
          (case promise_all promises of
             Fulfilled us \<Rightarrow> (Fulfilled (), parentNotes')
           | Pending \<Rightarrow> (Pending, parentNotes')
           | Rejected e \<Rightarrow> (Rejected e, parentNotes')))"

section \<open>processNotes and loadNotes\<close>

text \<open>
  \<^verbatim>\<open>processNotes\<close> of \<^verbatim>\<open>note.js\<close>, an async function: the state of its promise and the
  component. An exception in the synchronous part rejects the promise.
\<close>

definition note_processNotes ::
  "env \<Rightarrow> rawNotes \<Rightarrow> parentNote component \<Rightarrow>
   parentNote list promise \<times> parentNote component" where
  "note_processNotes env rawNotes this =
     (if \<not> rawNotes_truthy rawNotes \<or> \<not> isArray rawNotes then (Fulfilled [], this)
      else
        (case note_build (toLocaleDateString env) (elements rawNotes) this of
           Inl e \<Rightarrow> (Rejected e, this)
         | Inr (parentNotes, this') \<Rightarrow>
             (case loadAllRelatedRecords env parentNotes of
                (Fulfilled u, parentNotes') \<Rightarrow> (Fulfilled parentNotes', this')
              | (Pending, parentNotes') \<Rightarrow> (Pending, this')
              | (Rejected e, parentNotes') \<Rightarrow> (Rejected e, this'))))"

text \<open>\<^verbatim>\<open>processNotes\<close> of \<^verbatim>\<open>noteComponent.js\<close>.\<close>

definition nc_processNotes ::
  "env \<Rightarrow> rawNotes \<Rightarrow> nc_parentNote component \<Rightarrow>
   nc_parentNote list promise \<times> nc_parentNote component" where
  "nc_processNotes env rawNotes this =
     (if \<not> rawNotes_truthy rawNotes \<or> \<not> isArray rawNotes then (Fulfilled [], this)
      else
        (case nc_build (toLocaleDateString env) (elements rawNotes) this of
           Inl e \<Rightarrow> (Rejected e, this)
         | Inr (parentNotes, this') \<Rightarrow>
             (case loadAllRelatedRecords env parentNotes of
                (Fulfilled u, parentNotes') \<Rightarrow> (Fulfilled parentNotes', this')
              | (Pending, parentNotes') \<Rightarrow> (Pending, this')
              | (Rejected e, parentNotes') \<Rightarrow> (Rejected e, this'))))"

text \<open>The \<^verbatim>\<open>catch\<close> and \<^verbatim>\<open>finally\<close> blocks of \<^verbatim>\<open>loadNotes\<close> in both files.\<close>

definition loadNotes_catch :: "js_error \<Rightarrow> 'p component \<Rightarrow> 'p component" where
  "loadNotes_catch error this =
     (showToast ''Error'' (''Failed to load notes: '' @ js_toString (getErrorMessage error))
        ''error'' this)
     \<lparr>this_notes := [], loading := False\<rparr>"

text \<open>
  \<^verbatim>\<open>loadNotes\<close> of \<^verbatim>\<open>note.js\<close>, an async function: the state of its promise and the
  component. While an awaited promise is pending so is its own.
\<close>

definition note_loadNotes ::
  "env \<Rightarrow> parentNote component \<Rightarrow> unit promise \<times> parentNote component" where
  "note_loadNotes env this =
     (if \<not> truthy (recordId this) \<or> \<not> truthy (objectApiName this) then (Fulfilled (), this)
      else
        (case getNotes env of
           Pending \<Rightarrow> (Pending, this\<lparr>loading := True\<rparr>)
         | Rejected error \<Rightarrow> (Fulfilled (), loadNotes_catch error (this\<lparr>loading := True\<rparr>))
         | Fulfilled result \<Rightarrow>
             (case note_processNotes env result (this\<lparr>loading := True\<rparr>) of
                (Pending, this') \<Rightarrow> (Pending, this')
              | (Rejected error, this') \<Rightarrow> (Fulfilled (), loadNotes_catch error this')
              | (Fulfilled parentNotes, this') \<Rightarrow>
                  (Fulfilled (), this'\<lparr>this_notes := parentNotes, loading := False\<rparr>))))"

text \<open>\<^verbatim>\<open>loadNotes\<close> of \<^verbatim>\<open>noteComponent.js\<close>.\<close>

definition nc_loadNotes ::
  "env \<Rightarrow> nc_parentNote component \<Rightarrow> unit promise \<times> nc_parentNote component" where
  "nc_loadNotes env this =
     (if \<not> truthy (recordId this) \<or> \<not> truthy (objectApiName this) then (Fulfilled (), this)
      else
        (case getNotes env of
           Pending \<Rightarrow> (Pending, this\<lparr>loading := True\<rparr>)
         | Rejected error \<Rightarrow> (Fulfilled (), loadNotes_catch error (this\<lparr>loading := True\<rparr>))
         | Fulfilled result \<Rightarrow>
             (case nc_processNotes env result (this\<lparr>loading := True\<rparr>) of
                (Pending, this') \<Rightarrow> (Pending, this')
              | (Rejected error, this') \<Rightarrow> (Fulfilled (), loadNotes_catch error this')
              | (Fulfilled parentNotes, this') \<Rightarrow>
                  (Fulfilled (), this'\<lparr>this_notes := parentNotes, loading := False\<rparr>))))"

text \<open>
  \<^verbatim>\<open>getErrorMessage\<close> of the third file also returns a rejection reason that is a
  non-empty string. Its branches for \<^verbatim>\<open>body.pageErrors\<close> and \<^verbatim>\<open>body.fieldErrors\<close> are
  not taken: an error object here carries \<^verbatim>\<open>body.message\<close> and \<^verbatim>\<open>message\<close> only.
\<close>

definition plain_getErrorMessage :: "js_error \<Rightarrow> jsval" where
  "plain_getErrorMessage error =
     (case error of
        ApexError body_message message \<Rightarrow>
          (if truthy body_message then body_message
           else if truthy message then message
           else JStr ''Unknown error occurred'')
      | TypeError message \<Rightarrow>
          (if message \<noteq> [] then JStr message else JStr ''Unknown error occurred'')
      | Thrown v \<Rightarrow>
          (if \<not> truthy v then JStr ''Unknown error occurred''
           else (case v of JStr s \<Rightarrow> JStr s | _ \<Rightarrow> JStr ''Unknown error occurred'')))"

text \<open>
  \<^verbatim>\<open>loadNotes\<close> of the third file is not async: it returns \<^verbatim>\<open>undefined\<close> at once, and the
  result is the component once the \<^verbatim>\<open>then\<close>/\<^verbatim>\<open>catch\<close> chain on \<^verbatim>\<open>getNotes\<close> has run. An
  exception in the \<^verbatim>\<open>then\<close> callback reaches the \<^verbatim>\<open>catch\<close> callback too.
\<close>

definition plain_loadNotes :: "env \<Rightarrow> plain_parentNote component \<Rightarrow> plain_parentNote component" where
  "plain_loadNotes env this =
     (if \<not> truthy (recordId this) \<or> \<not> truthy (objectApiName this) then this
      else
        (case getNotes env of
           Pending \<Rightarrow> this
         | Rejected error \<Rightarrow>
             showToast ''Error''
               (''Failed to load notes: '' @ js_toString (plain_getErrorMessage error))
               ''error'' this
         | Fulfilled result \<Rightarrow>
             (case plain_processNotes result of
                Inr parentNotes \<Rightarrow> this\<lparr>this_notes := parentNotes\<rparr>
              | Inl error \<Rightarrow>
                  showToast ''Error''
                    (''Failed to load notes: '' @ js_toString (plain_getErrorMessage error))
                    ''error'' this)))"

section \<open>What the claims speak about\<close>

text \<open>A root record is one whose reply flag is not truthy.\<close>

definition is_root :: "'a note_record_scheme \<Rightarrow> bool" where
  "is_root n = (\<not> truthy (Is_Reply__c n))"

text \<open>Position \<open>i\<close> is the last one of \<open>ids\<close> that holds \<open>k\<close>.\<close>

definition last_at :: "jsval list \<Rightarrow> jsval \<Rightarrow> nat \<Rightarrow> bool" where
  "last_at ids k i = (i < length ids \<and> ids ! i = k \<and> k \<notin> set (drop (Suc i) ids))"

text \<open>
  A tree seen as the records it was built from: each root's record with the records of
  its replies.
\<close>

definition plain_view :: "plain_parentNote list \<Rightarrow> (note_record \<times> note_record list) list" where
  "plain_view tree = map (\<lambda>p. (record_of p, plain_replies p)) tree"

definition tree_view :: "'a parentNote_scheme list \<Rightarrow> (note_record \<times> note_record list) list" where
  "tree_view tree = map (\<lambda>p. (record_of p, map record_of (replies p))) tree"

text \<open>
  The roots of the view are the root records in input order, and the replies of each
  root are, in input order, the reply records whose parent link is its \<^verbatim>\<open>Id\<close>; when
  several roots share an \<^verbatim>\<open>Id\<close>, the last of them has the replies.
\<close>

definition in_input_order :: "note_record list \<Rightarrow> (note_record \<times> note_record list) list \<Rightarrow> bool" where
  "in_input_order rawNotes view =
     (map fst view = filter is_root rawNotes \<and>
      list_all (\<lambda>i. snd (view ! i) =
                   filter (\<lambda>n. truthy (Is_Reply__c n) \<and>
                               last_at (map (note_Id \<circ> fst) view) (Parent_Note__c n) i)
                     rawNotes)
        [0..<length view])"

text \<open>
  The grouping in the words of the specification: the root records in input order, each
  with the reply records that name it as parent, in input order.
\<close>

definition threads :: "note_record list \<Rightarrow> (note_record \<times> note_record list) list" where
  "threads rawNotes =
     map (\<lambda>r. (r, filter (\<lambda>n. truthy (Is_Reply__c n) \<and> Parent_Note__c n = note_Id r) rawNotes))
       (filter is_root rawNotes)"

text \<open>Every record that has a node in the view, root or reply.\<close>

definition view_records :: "(note_record \<times> note_record list) list \<Rightarrow> note_record set" where
  "view_records view = set (map fst view) \<union> (\<Union>(r, rs) \<in> set view. set rs)"

text \<open>
  The twelve fields a parent shares with a reply, and every node of a tree in the order
  \<open>issue\<close> visits them: each parent followed by its replies.
\<close>

definition node_of :: "'a replyNote_scheme \<Rightarrow> replyNote" where
  "node_of n =
     \<lparr>note_Id = note_Id n, Title__c = Title__c n, Category__c = Category__c n,
      Body__c = Body__c n, Parent_Note__c = Parent_Note__c n, Is_Reply__c = Is_Reply__c n,
      Thread_Count__c = Thread_Count__c n, CreatedDate = CreatedDate n,
      CreatedBy = CreatedBy n, relatedRecordsDisplay = relatedRecordsDisplay n,
      linkedRecords = linkedRecords n, isLoading = isLoading n\<rparr>"

definition all_nodes :: "'a parentNote_scheme list \<Rightarrow> replyNote list" where
  "all_nodes tree = concat (map (\<lambda>p. node_of p # replies p) tree)"

text \<open>
  A node with its enrichment fields as the object literals of \<^verbatim>\<open>processNotes\<close> set them,
  and a parent with itself and its replies so reset: what enrichment leaves untouched.
\<close>

definition reset_node :: "'a replyNote_scheme \<Rightarrow> 'a replyNote_scheme" where
  "reset_node n = n\<lparr>relatedRecordsDisplay := [], linkedRecords := None, isLoading := True\<rparr>"

definition reset_parent :: "'a parentNote_scheme \<Rightarrow> 'a parentNote_scheme" where
  "reset_parent p = reset_node (p\<lparr>replies := map reset_node (replies p)\<rparr>)"

text \<open>
  The update \<open>settle_target\<close> makes, found by the position \<open>k\<close> of the object in
  \<open>all_nodes\<close> instead of by its reference.
\<close>

fun settle_index ::
  "nat \<Rightarrow> linked_record list option outcome \<Rightarrow> 'a parentNote_scheme list \<Rightarrow>
   'a parentNote_scheme list" where
  "settle_index k fetched [] = []"
| "settle_index k fetched (p # rest) =
     (if k = 0 then loadRelatedRecordsForNote fetched p # rest
      else if k \<le> length (replies p) then
        p\<lparr>replies := (replies p)
             [k - 1 := loadRelatedRecordsForNote fetched (replies p ! (k - 1))]\<rparr> # rest
      else p # settle_index (k - 1 - length (replies p)) fetched rest)"

text \<open>Every reply of the view carries the \<^verbatim>\<open>Id\<close> of the root it stands under.\<close>

definition no_dangling :: "(note_record \<times> note_record list) list \<Rightarrow> bool" where
  "no_dangling view =
     list_all (\<lambda>(r, rs). list_all (\<lambda>q. Parent_Note__c q = note_Id r) rs) view"

text \<open>
  The three states of a node, read from its enrichment fields: as the object literal left
  it, as the \<^verbatim>\<open>try\<close> body leaves it on the result \<open>linked\<close>, and as the \<^verbatim>\<open>catch\<close> body
  leaves it.
\<close>

definition unresolved :: "'a replyNote_scheme \<Rightarrow> bool" where
  "unresolved n = (isLoading n \<and> relatedRecordsDisplay n = [])"

definition resolved_as :: "linked_record list option \<Rightarrow> 'a replyNote_scheme \<Rightarrow> bool" where
  "resolved_as linked n =
     (\<not> isLoading n \<and>
      (case linked of
         Some (r # rs) \<Rightarrow>
           relatedRecordsDisplay n = js_join '', '' (map Name (r # rs)) \<and>
           linkedRecords n = Some (r # rs)
       | _ \<Rightarrow> relatedRecordsDisplay n = ''Current record only'' \<and> linkedRecords n = Some []))"

definition failed :: "'a replyNote_scheme \<Rightarrow> bool" where
  "failed n =
     (\<not> isLoading n \<and> relatedRecordsDisplay n = ''Error loading related records'' \<and>
      linkedRecords n = Some [])"

subsection \<open>Concrete inputs\<close>

text \<open>
  A root \<^verbatim>\<open>A\<close>, its reply \<^verbatim>\<open>B\<close> and a reply \<^verbatim>\<open>C\<close> to a note \<^verbatim>\<open>X\<close> that is not in the list;
  an environment in which both linked-record calls succeed, the second one first.
\<close>

definition example_note :: "string \<Rightarrow> bool \<Rightarrow> jsval \<Rightarrow> note_record" where
  "example_note i reply parent =
     \<lparr>note_Id = JStr i, Title__c = JStr ''Visit'', Category__c = JStr ''General'',
      Body__c = JStr ''Body'', Parent_Note__c = parent, Is_Reply__c = JBool reply,
      Thread_Count__c = JNum 0, CreatedDate = JStr ''2024-01-01T00:00:00.000Z'',
      CreatedBy = JStr ''User''\<rparr>"

definition scenario :: "note_record list" where
  "scenario = [example_note ''A'' False JNull, example_note ''B'' True (JStr ''A''),
               example_note ''C'' True (JStr ''X'')]"

definition example_linked :: "string \<Rightarrow> linked_record" where
  "example_linked n = \<lparr>linked_Id = JStr ''001'', Name = JStr n, RelatedObject = JStr ''Account''\<rparr>"

definition example_env :: env where
  "example_env =
     \<lparr>toLocaleDateString = (\<lambda>d. ''Jan 01, 2024, 12:00 AM''),
      getNotes = Fulfilled (Array scenario),
      getLinkedRecords =
        (\<lambda>k. if k = 0 then Succeeds (Some [example_linked ''Acme'', example_linked ''Bolt''])
             else Succeeds (Some [])),
      settled = [1, 0]\<rparr>"

definition example_this :: "parentNote component" where
  "example_this =
     \<lparr>recordId = JStr ''001'', objectApiName = JStr ''Account'', this_notes = [],
      expandedSections = [], loading = False, toasts = []\<rparr>"

definition nc_example_this :: "nc_parentNote component" where
  "nc_example_this =
     \<lparr>recordId = JStr ''001'', objectApiName = JStr ''Account'', this_notes = [],
      expandedSections = [], loading = False, toasts = []\<rparr>"

text \<open>The promise is fulfilled.\<close>

fun is_fulfilled :: "'a promise \<Rightarrow> bool" where
  "is_fulfilled (Fulfilled x) = True"
| "is_fulfilled p = False"

text \<open>The tree \<^verbatim>\<open>note.js\<close> builds from the scenario, before enrichment.\<close>

definition example_tree :: "parentNote list" where
  "example_tree =
     (case note_build (toLocaleDateString example_env) scenario example_this of
        Inr (tree, this') \<Rightarrow> tree
      | Inl e \<Rightarrow> [])"

text \<open>The call for the reply is rejected, the call for the root succeeds.\<close>

definition failing_env :: env where
  "failing_env =
     example_env\<lparr>getLinkedRecords :=
       (\<lambda>k. if k = 1 then Fails (ApexError (JStr ''Server error'') JUndefined)
            else Succeeds (Some [example_linked ''Acme'', example_linked ''Bolt'']))\<rparr>"



text \<open>
  A prior snapshot holding one root \<^verbatim>\<open>R1\<close> with its replies section open (and, in
  \<^verbatim>\<open>noteComponent.js\<close>, the note itself collapsed), rebuilt from a list with \<^verbatim>\<open>R1\<close> and a new
  root \<^verbatim>\<open>R2\<close>.
\<close>

definition prior_root :: parentNote where
  "prior_root =
     \<lparr>note_Id = JStr ''R1'', Title__c = JStr ''Visit'', Category__c = JStr ''General'',
      Body__c = JStr ''Body'', Parent_Note__c = JNull, Is_Reply__c = JBool False,
      Thread_Count__c = JNum 0, CreatedDate = JStr ''2024-01-01T00:00:00.000Z'',
      CreatedBy = JStr ''User'',
      relatedRecordsDisplay = ''Current record only'', linkedRecords = Some [],
      isLoading = False, titleWithDate = ''Visit'', replies = [], repliesExpanded = True,
      repliesSectionClass = ''slds-section slds-is-open''\<rparr>"

definition nc_prior_root :: nc_parentNote where
  "nc_prior_root =
     \<lparr>note_Id = JStr ''R1'', Title__c = JStr ''Visit'', Category__c = JStr ''General'',
      Body__c = JStr ''Body'', Parent_Note__c = JNull, Is_Reply__c = JBool False,
      Thread_Count__c = JNum 0, CreatedDate = JStr ''2024-01-01T00:00:00.000Z'',
      CreatedBy = JStr ''User'',
      relatedRecordsDisplay = ''Current record only'', linkedRecords = Some [],
      isLoading = False, titleWithDate = ''Visit'', replies = [], repliesExpanded = True,
      repliesSectionClass = ''slds-section slds-is-open'',
      formattedDateTime = ''Jan 01, 2024, 12:00 AM'', repliesButtonLabel = [],
      isExpanded = False\<rparr>"

definition carried_notes :: "note_record list" where
  "carried_notes = [example_note ''R1'' False JNull, example_note ''R2'' False JNull]"

definition carry_env :: env where
  "carry_env = example_env\<lparr>settled := [0, 1]\<rparr>"

definition carry_this :: "parentNote component" where
  "carry_this = example_this\<lparr>this_notes := [prior_root]\<rparr>"

definition nc_carry_this :: "nc_parentNote component" where
  "nc_carry_this = nc_example_this\<lparr>this_notes := [nc_prior_root]\<rparr>"

definition carry_tree :: "parentNote list" where
  "carry_tree =
     (case fst (note_processNotes carry_env (Array carried_notes) carry_this) of
        Fulfilled tree \<Rightarrow> tree | _ \<Rightarrow> [])"

definition nc_carry_tree :: "nc_parentNote list" where
  "nc_carry_tree =
     (case fst (nc_processNotes carry_env (Array carried_notes) nc_carry_this) of
        Fulfilled tree \<Rightarrow> tree | _ \<Rightarrow> [])"

text \<open>The component of the third file before its first load.\<close>

definition plain_example_this :: "plain_parentNote component" where
  "plain_example_this =
     \<lparr>recordId = JStr ''001'', objectApiName = JStr ''Account'', this_notes = [],
      expandedSections = [], loading = False, toasts = []\<rparr>"

text \<open>The call of \<^verbatim>\<open>getNotes\<close> is rejected.\<close>

definition rejecting_env :: env where
  "rejecting_env = example_env\<lparr>getNotes := Rejected (ApexError (JStr ''Server error'') JUndefined)\<rparr>"

text \<open>The toast the \<^verbatim>\<open>catch\<close> of \<^verbatim>\<open>loadNotes\<close> dispatches for an error message.\<close>

definition load_failed_toast :: "jsval \<Rightarrow> toast" where
  "load_failed_toast message =
     \<lparr>toast_title = ''Error'',
      toast_message = ''Failed to load notes: '' @ js_toString message,
      toast_variant = ''error''\<rparr>"

text \<open>
  A root record without \<^verbatim>\<open>Title__c\<close>, the TypeError \<^verbatim>\<open>note.js\<close> raises on it, and an
  environment in which \<^verbatim>\<open>getNotes\<close> returns just this record.
\<close>

definition untitled_note :: note_record where
  "untitled_note = (example_note ''A'' False JNull)\<lparr>Title__c := JUndefined\<rparr>"

definition undefined_length :: js_error where
  "undefined_length =
     TypeError (''Cannot read properties of undefined (reading '' @ [CHR 0x27] @
                ''length'' @ [CHR 0x27] @ '')'')"

definition untitled_env :: env where
  "untitled_env = example_env\<lparr>getNotes := Fulfilled (Array [untitled_note]), settled := [0]\<rparr>"

section \<open>The two passes: what they compute\<close>

lemma last_at_snoc_same: "last_at (ids @ [k]) k i = (i = length ids)"
  by (auto simp: last_at_def nth_append)

lemma last_at_snoc_other: "x \<noteq> k \<Longrightarrow> last_at (ids @ [x]) k i = last_at ids k i"
  by (auto simp: last_at_def nth_append)

lemma firstPass_append:
  "firstPass mk (xs @ ys) st =
     (case firstPass mk xs st of Inl e \<Rightarrow> Inl e | Inr st' \<Rightarrow> firstPass mk ys st')"
  by (induction mk xs st rule: firstPass.induct) (auto split: sum.splits)

lemma firstPass_inv:
  "firstPass mk raws (Map.empty, []) = Inr (m, ps) \<Longrightarrow>
     list_all2 (\<lambda>n p. mk n = Inr p) (filter is_root raws) ps \<and>
     (\<forall>k i. (m k = Some i) = last_at (map note_Id (filter is_root raws)) k i)"
proof (induction raws arbitrary: m ps rule: rev_induct)
  case Nil
  then show ?case by (auto simp: last_at_def)
next
  case (snoc n raws)
  from snoc.prems obtain m0 ps0 where
    p0: "firstPass mk raws (Map.empty, []) = Inr (m0, ps0)" and
    p1: "firstPass mk [n] (m0, ps0) = Inr (m, ps)"
    by (auto simp: firstPass_append split: sum.splits)
  note ih = snoc.IH [OF p0]
  have len: "length ps0 = length (filter is_root raws)"
    using ih by (auto dest: list_all2_lengthD)
  show ?case
  proof (cases "is_root n")
    case False
    with p1 have "m = m0" "ps = ps0" by (auto simp: is_root_def)
    with ih False show ?thesis by simp
  next
    case True
    with p1 obtain p where mk: "mk n = Inr p" and
      m: "m = m0(note_Id n \<mapsto> length ps0)" and ps: "ps = ps0 @ [p]"
      by (auto simp: is_root_def split: sum.splits)
    have "list_all2 (\<lambda>n p. mk n = Inr p) (filter is_root (raws @ [n])) ps"
      using ih True mk ps by (simp add: list_all2_appendI)
    moreover have "(m k = Some i) = last_at (map note_Id (filter is_root (raws @ [n]))) k i" for k i
    proof (cases "k = note_Id n")
      case True
      then show ?thesis using \<open>is_root n\<close> m len by (auto simp: last_at_snoc_same)
    next
      case False
      then show ?thesis using \<open>is_root n\<close> m ih by (simp add: last_at_snoc_other)
    qed
    ultimately show ?thesis by blast
  qed
qed

lemma secondPass_nth:
  "(\<And>k i. m k = Some i \<Longrightarrow> i < length ps) \<Longrightarrow>
   length (secondPass push m raws ps) = length ps \<and>
   (\<forall>i<length ps. secondPass push m raws ps ! i =
      foldl push (ps ! i) (filter (\<lambda>n. truthy (Is_Reply__c n) \<and> m (Parent_Note__c n) = Some i) raws))"
proof (induction raws arbitrary: ps)
  case Nil
  then show ?case by simp
next
  case (Cons n raws)
  show ?case
  proof (cases "truthy (Is_Reply__c n)")
    case False
    then show ?thesis using Cons.IH [of ps] Cons.prems by simp
  next
    case True
    show ?thesis
    proof (cases "m (Parent_Note__c n)")
      case None
      then show ?thesis using True Cons.IH [of ps] Cons.prems by simp
    next
      case (Some j)
      let ?ps = "ps[j := push (ps ! j) n]"
      have j: "j < length ps" using Cons.prems Some by blast
      have "\<And>k i. m k = Some i \<Longrightarrow> i < length ?ps" using Cons.prems by simp
      from Cons.IH [of ?ps, OF this] True Some j show ?thesis
        by (auto simp: nth_list_update)
    qed
  qed
qed

text \<open>Both passes together.\<close>

lemma two_passes:
  assumes "firstPass mk raws (Map.empty, []) = Inr (m, ps)"
  shows "list_all2 (\<lambda>n p. mk n = Inr p) (filter is_root raws) ps \<and>
         length (secondPass push m raws ps) = length ps \<and>
         (\<forall>i<length ps. secondPass push m raws ps ! i =
           foldl push (ps ! i)
             (filter (\<lambda>n. truthy (Is_Reply__c n) \<and>
                last_at (map note_Id (filter is_root raws)) (Parent_Note__c n) i) raws))"
proof -
  note inv = firstPass_inv [OF assms]
  have rng: "\<And>k i. m k = Some i \<Longrightarrow> i < length ps"
    using inv by (auto simp: last_at_def dest: list_all2_lengthD)
  note sp = secondPass_nth [of m ps push raws, OF rng]
  show ?thesis using inv sp by simp
qed

lemma foldl_plain_push:
  "foldl plain_push p ns = p\<lparr>plain_replies := plain_replies p @ ns\<rparr>"
  by (induction ns arbitrary: p) (simp_all add: plain_push_def plain_mkReply_def)

lemma foldl_push_reply:
  "foldl push_reply p ns = p\<lparr>replies := replies p @ map mkReply ns\<rparr>"
  by (induction ns arbitrary: p) (simp_all add: push_reply_def)

lemma record_of_plain [simp]: "record_of (n :: note_record) = n"
  by (simp add: record_of_def)

lemma record_of_mkReply [simp]: "record_of (mkReply n) = n"
  by (simp add: record_of_def mkReply_def)

lemma record_of_plain_mkParent: "plain_mkParent n = Inr p \<Longrightarrow> record_of p = n \<and> plain_replies p = []"
  by (auto simp: plain_mkParent_def record_of_def)

lemma record_of_note_mkParent: "note_mkParent f e n = Inr p \<Longrightarrow> record_of p = n \<and> replies p = []"
  by (auto simp: note_mkParent_def record_of_def Let_def split: sum.splits)

lemma record_of_nc_mkParent: "nc_mkParent f e1 e2 n = Inr p \<Longrightarrow> record_of p = n \<and> replies p = []"
  by (auto simp: nc_mkParent_def record_of_def Let_def)

lemma list_all2_record_of:
  "list_all2 (\<lambda>n p. mk n = Inr p) roots ps \<Longrightarrow> (\<And>n p. mk n = Inr p \<Longrightarrow> record_of p = n) \<Longrightarrow>
   map record_of ps = roots"
  by (induction rule: list_all2_induct) auto

lemma firstPass_total:
  "(\<And>n. \<exists>p. mk n = Inr p) \<Longrightarrow> \<exists>st'. firstPass mk raws st = Inr st'"
proof (induction mk raws st rule: firstPass.induct)
  case (1 mk st)
  then show ?case by simp
next
  case (2 mk n rest noteMap parentNotes)
  obtain p where p: "mk n = Inr p" using "2.prems" by blast
  show ?case
  proof (cases "truthy (Is_Reply__c n)")
    case True
    then show ?thesis using "2.IH"(2) "2.prems" by simp
  next
    case False
    then show ?thesis using "2.IH"(1) [OF False p] "2.prems" p by simp
  qed
qed

lemma in_input_orderI:
  assumes len: "length tree = length ps"
    and roots: "map record_of ps = filter is_root raws"
    and nodes: "\<And>i. i < length ps \<Longrightarrow>
           rec (tree ! i) = record_of (ps ! i) \<and>
           reps (tree ! i) =
             filter (\<lambda>n. truthy (Is_Reply__c n) \<and>
                last_at (map note_Id (filter is_root raws)) (Parent_Note__c n) i) raws"
  shows "in_input_order raws (map (\<lambda>p. (rec p, reps p)) tree)"
proof -
  have fst: "map fst (map (\<lambda>p. (rec p, reps p)) tree) = filter is_root raws"
  proof -
    have "map rec tree = map record_of ps"
      using len nodes by (intro nth_equalityI) auto
    then show ?thesis using roots by (simp add: comp_def)
  qed
  then have ids: "map (note_Id \<circ> fst) (map (\<lambda>p. (rec p, reps p)) tree) =
      map note_Id (filter is_root raws)"
    by (metis map_map)
  show ?thesis
    unfolding in_input_order_def ids
    using fst len nodes by (auto simp: list_all_iff)
qed

lemma plain_processNotes_view:
  "\<exists>tree. plain_processNotes (Array raws) = Inr tree \<and> in_input_order raws (plain_view tree)"
proof -
  obtain m ps where fp: "firstPass plain_mkParent raws (Map.empty, []) = Inr (m, ps)"
    using firstPass_total [of plain_mkParent raws "(Map.empty, [])"]
    by (auto simp: plain_mkParent_def)
  let ?tree = "secondPass plain_push m raws ps"
  have tp: "list_all2 (\<lambda>n p. plain_mkParent n = Inr p) (filter is_root raws) ps"
    "length ?tree = length ps"
    "\<And>i. i < length ps \<Longrightarrow> ?tree ! i =
           foldl plain_push (ps ! i)
             (filter (\<lambda>n. truthy (Is_Reply__c n) \<and>
                last_at (map note_Id (filter is_root raws)) (Parent_Note__c n) i) raws)"
    using two_passes [OF fp, where push = plain_push] by simp_all
  have roots: "map record_of ps = filter is_root raws"
    using tp(1) by (rule list_all2_record_of) (simp add: record_of_plain_mkParent)
  have empty: "plain_replies (ps ! i) = []" if "i < length ps" for i
    using tp(1) that record_of_plain_mkParent by (auto simp: list_all2_conv_all_nth)
  have "in_input_order raws (map (\<lambda>p. (record_of p, plain_replies p)) ?tree)"
  proof (rule in_input_orderI [where ps = ps])
    show "length ?tree = length ps" by (rule tp(2))
    show "map record_of ps = filter is_root raws" by (rule roots)
    show "record_of (?tree ! i) = record_of (ps ! i) \<and>
           plain_replies (?tree ! i) =
             filter (\<lambda>n. truthy (Is_Reply__c n) \<and>
                last_at (map note_Id (filter is_root raws)) (Parent_Note__c n) i) raws"
      if "i < length ps" for i
      using tp(3) [OF that] empty [OF that] by (simp add: foldl_plain_push record_of_def)
  qed
  then show ?thesis using fp by (simp add: plain_processNotes_def plain_view_def)
qed

lemma record_of_replies_update: "record_of (p\<lparr>replies := rs\<rparr>) = record_of p"
  by (simp add: record_of_def)

lemma enriched_passes_view:
  fixes mk :: "note_record \<Rightarrow> js_error + 'a parentNote_scheme"
  assumes fp: "firstPass mk raws (Map.empty, []) = Inr (m, ps)"
    and mk: "\<And>n p. mk n = Inr p \<Longrightarrow> record_of p = n \<and> replies p = []"
  shows "in_input_order raws (tree_view (secondPass push_reply m raws ps))"
proof -
  let ?tree = "secondPass push_reply m raws ps"
  have tp: "list_all2 (\<lambda>n p. mk n = Inr p) (filter is_root raws) ps"
    "length ?tree = length ps"
    "\<And>i. i < length ps \<Longrightarrow> ?tree ! i =
           foldl push_reply (ps ! i)
             (filter (\<lambda>n. truthy (Is_Reply__c n) \<and>
                last_at (map note_Id (filter is_root raws)) (Parent_Note__c n) i) raws)"
    using two_passes [OF fp, where push = push_reply] by simp_all
  have roots: "map record_of ps = filter is_root raws"
    using tp(1) by (rule list_all2_record_of) (simp add: mk)
  have empty: "replies (ps ! i) = []" if "i < length ps" for i
    using tp(1) that mk by (auto simp: list_all2_conv_all_nth)
  have "in_input_order raws (map (\<lambda>p. (record_of p, map record_of (replies p))) ?tree)"
  proof (rule in_input_orderI [where ps = ps])
    show "length ?tree = length ps" by (rule tp(2))
    show "map record_of ps = filter is_root raws" by (rule roots)
    show "record_of (?tree ! i) = record_of (ps ! i) \<and>
           map record_of (replies (?tree ! i)) =
             filter (\<lambda>n. truthy (Is_Reply__c n) \<and>
                last_at (map note_Id (filter is_root raws)) (Parent_Note__c n) i) raws"
      if "i < length ps" for i
      using tp(3) [OF that] empty [OF that]
      by (simp add: foldl_push_reply record_of_replies_update comp_def)
  qed
  then show ?thesis by (simp add: tree_view_def)
qed

lemma note_build_view:
  "note_build f raws this = Inr (tree, this') \<Longrightarrow> in_input_order raws (tree_view tree)"
  by (auto simp: note_build_def split: sum.splits
      intro!: enriched_passes_view record_of_note_mkParent)

lemma tree_view_setButtonLabel: "tree_view (map setButtonLabel tree) = tree_view tree"
  by (simp add: tree_view_def setButtonLabel_def record_of_def comp_def)

lemma nc_build_view:
  "nc_build f raws this = Inr (tree, this') \<Longrightarrow> in_input_order raws (tree_view tree)"
  by (auto simp: nc_build_def tree_view_setButtonLabel split: sum.splits
      intro!: enriched_passes_view record_of_nc_mkParent)

lemma nc_build_total: "\<exists>tree this'. nc_build f raws this = Inr (tree, this')"
proof -
  obtain st' where "firstPass (nc_mkParent f (currentRepliesExpansion (this_notes this))
                (currentNoteExpansion (this_notes this))) raws (Map.empty, []) = Inr st'"
    using firstPass_total [of "nc_mkParent f (currentRepliesExpansion (this_notes this))
                (currentNoteExpansion (this_notes this))" raws "(Map.empty, [])"]
    by (auto simp: nc_mkParent_def Let_def)
  then show ?thesis by (cases st') (simp add: nc_build_def)
qed

section \<open>Enrichment: what a run computes\<close>

lemma node_of_reply [simp]: "node_of (n :: replyNote) = n"
  by (simp add: node_of_def)

lemma replies_load [simp]: "replies (loadRelatedRecordsForNote fetched p) = replies p"
  by (simp add: loadRelatedRecordsForNote_def split: outcome.splits)

lemma node_of_load: "node_of (loadRelatedRecordsForNote fetched p) = loadRelatedRecordsForNote fetched (node_of p)"
  by (simp add: loadRelatedRecordsForNote_def node_of_def split: outcome.splits)

lemma node_of_replies_update [simp]: "node_of (p\<lparr>replies := rs\<rparr>) = node_of p"
  by (simp add: node_of_def)

lemma reset_load [simp]: "reset_node (loadRelatedRecordsForNote fetched n) = reset_node n"
  by (simp add: loadRelatedRecordsForNote_def reset_node_def split: outcome.splits)

lemma reset_parent_load [simp]: "reset_parent (loadRelatedRecordsForNote fetched p) = reset_parent p"
  by (simp add: loadRelatedRecordsForNote_def reset_parent_def reset_node_def split: outcome.splits)

lemma length_issue: "length (issue i tree) = length (all_nodes tree)"
  by (induction tree arbitrary: i) (simp_all add: all_nodes_def)

lemma settle_target_index:
  "length pre = i \<Longrightarrow> k < length (issue i tree) \<Longrightarrow>
   settle_target fetched (issue i tree ! k) (pre @ tree) = pre @ settle_index k fetched tree"
proof (induction tree arbitrary: pre i k)
  case Nil
  then show ?case by simp
next
  case (Cons p rest)
  have i: "i = length pre" using Cons.prems by simp
  show ?case
  proof (cases k)
    case 0
    then show ?thesis by (simp add: i)
  next
    case (Suc j)
    show ?thesis
    proof (cases "j < length (replies p)")
      case True
      then show ?thesis using Suc by (simp add: i nth_append)
    next
      case False
      then obtain m where m: "j = length (replies p) + m"
        using le_Suc_ex not_less by blast
      have "m < length (issue (Suc i) rest)"
        using Cons.prems Suc m by simp
      from Cons.IH [of "pre @ [p]" "Suc i", OF _ this]
      show ?thesis using Suc m by (simp add: i nth_append)
    qed
  qed
qed

lemma issue_settle_index: "issue i (settle_index k fetched tree) = issue i tree"
  by (induction tree arbitrary: i k) simp_all

lemma reset_reply_update:
  "reset_parent (p\<lparr>replies := (replies p)[j := loadRelatedRecordsForNote fetched (replies p ! j)]\<rparr>) =
   reset_parent p"
proof -
  have "map reset_node ((replies p)[j := loadRelatedRecordsForNote fetched (replies p ! j)]) =
        map reset_node (replies p)"
    by (simp add: map_update list_update_same_conv)
       (metis list_update_id map_update)
  then show ?thesis by (simp add: reset_parent_def)
qed

lemma reset_settle_index: "map reset_parent (settle_index k fetched tree) = map reset_parent tree"
  by (induction tree arbitrary: k) (simp_all add: reset_reply_update)

lemma all_nodes_Cons: "all_nodes (q # rest) = node_of q # replies q @ all_nodes rest"
  by (simp add: all_nodes_def)

lemma all_nodes_settle_index:
  "k < length (all_nodes tree) \<Longrightarrow>
   all_nodes (settle_index k fetched tree) =
     (all_nodes tree)[k := loadRelatedRecordsForNote fetched (all_nodes tree ! k)]"
proof (induction tree arbitrary: k)
  case Nil
  then show ?case by (simp add: all_nodes_def)
next
  case (Cons p rest)
  show ?case
  proof (cases k)
    case 0
    then show ?thesis by (simp add: all_nodes_Cons node_of_load)
  next
    case (Suc j)
    show ?thesis
    proof (cases "j < length (replies p)")
      case True
      then show ?thesis using Suc
        by (simp add: all_nodes_Cons nth_append list_update_append)
    next
      case False
      then obtain m where m: "j = length (replies p) + m"
        using le_Suc_ex not_less by blast
      have "m < length (all_nodes rest)"
        using Cons.prems Suc m by (simp add: all_nodes_Cons)
      from Cons.IH [OF this] show ?thesis using Suc m
        by (simp add: all_nodes_Cons nth_append list_update_append)
    qed
  qed
qed

lemma promise_all_settled:
  "promise_all (map (\<lambda>k. if P k then Fulfilled () else Pending) ks) =
     (if \<forall>k\<in>set ks. P k then Fulfilled (map (\<lambda>k. ()) ks) else Pending)"
  by (induction ks) (auto split: promise.splits)

lemma run_invariant:
  fixes tree :: "'a parentNote_scheme list"
  defines "N \<equiv> length (all_nodes tree)"
  shows "\<exists>tree'. foldl (settle_call fetch) (tree, map (\<lambda>t. Pending) (issue 0 tree)) order =
           (tree', map (\<lambda>k. if k \<in> set order then Fulfilled () else Pending) [0..<N]) \<and>
         map reset_parent tree' = map reset_parent tree \<and>
         issue 0 tree' = issue 0 tree \<and>
         all_nodes tree' =
           map (\<lambda>k. if k \<in> set order
                     then loadRelatedRecordsForNote (fetch k) (all_nodes tree ! k)
                     else all_nodes tree ! k) [0..<N]"
proof (induction order rule: rev_induct)
  case Nil
  have a: "map (\<lambda>t. Pending :: unit promise) (issue 0 tree) = map (\<lambda>k. Pending) [0..<N]"
    unfolding N_def by (rule nth_equalityI) (simp_all add: length_issue)
  have b: "all_nodes tree = map (\<lambda>k. all_nodes tree ! k) [0..<N]"
    unfolding N_def by (rule nth_equalityI) simp_all
  have "foldl (settle_call fetch) (tree, map (\<lambda>t. Pending) (issue 0 tree)) [] =
           (tree, map (\<lambda>k. if k \<in> set [] then Fulfilled () else Pending) [0..<N])"
    using a by simp
  moreover have "all_nodes tree =
           map (\<lambda>k. if k \<in> set []
                     then loadRelatedRecordsForNote (fetch k) (all_nodes tree ! k)
                     else all_nodes tree ! k) [0..<N]"
    using b by simp
  ultimately show ?case by blast
next
  case (snoc k order)
  then obtain tree' where
    run: "foldl (settle_call fetch) (tree, map (\<lambda>t. Pending) (issue 0 tree)) order =
           (tree', map (\<lambda>k. if k \<in> set order then Fulfilled () else Pending) [0..<N])" and
    reset: "map reset_parent tree' = map reset_parent tree" and
    iss: "issue 0 tree' = issue 0 tree" and
    nodes: "all_nodes tree' =
           map (\<lambda>k. if k \<in> set order
                     then loadRelatedRecordsForNote (fetch k) (all_nodes tree ! k)
                     else all_nodes tree ! k) [0..<N]"
    by blast
  let ?proms = "map (\<lambda>k. if k \<in> set order then Fulfilled () else Pending) [0..<N]"
  show ?case
  proof (cases "k < N \<and> k \<notin> set order")
    case True
    then have pend: "k < length ?proms \<and> ?proms ! k = Pending" by simp
    have kk: "k < length (issue 0 tree')" using True iss by (simp add: length_issue N_def)
    have st: "settle_target (fetch k) (issue 0 tree' ! k) tree' = settle_index k (fetch k) tree'"
      using settle_target_index [of "[]" 0 k tree' "fetch k"] kk by simp
    let ?tree'' = "settle_index k (fetch k) tree'"
    have step: "settle_call fetch (tree', ?proms) k = (?tree'', ?proms[k := Fulfilled ()])"
      unfolding settle_call_def using pend st by simp
    have proms: "?proms[k := Fulfilled ()] =
        map (\<lambda>j. if j \<in> set (order @ [k]) then Fulfilled () else Pending) [0..<N]"
      using True by (auto simp: list_eq_iff_nth_eq nth_list_update)
    have kn: "k < length (all_nodes tree')" using nodes True by simp
    have "all_nodes ?tree'' =
        (all_nodes tree')[k := loadRelatedRecordsForNote (fetch k) (all_nodes tree' ! k)]"
      by (rule all_nodes_settle_index [OF kn])
    also have "\<dots> = map (\<lambda>j. if j \<in> set (order @ [k])
                     then loadRelatedRecordsForNote (fetch j) (all_nodes tree ! j)
                     else all_nodes tree ! j) [0..<N]"
      using True by (auto simp: nodes list_eq_iff_nth_eq nth_list_update)
    finally have nodes': "all_nodes ?tree'' = map (\<lambda>j. if j \<in> set (order @ [k])
                     then loadRelatedRecordsForNote (fetch j) (all_nodes tree ! j)
                     else all_nodes tree ! j) [0..<N]" .
    have "foldl (settle_call fetch) (tree, map (\<lambda>t. Pending) (issue 0 tree)) (order @ [k]) =
          (?tree'', map (\<lambda>j. if j \<in> set (order @ [k]) then Fulfilled () else Pending) [0..<N])"
      using run step proms by simp
    moreover have "map reset_parent ?tree'' = map reset_parent tree"
      using reset by (simp add: reset_settle_index)
    moreover have "issue 0 ?tree'' = issue 0 tree"
      using iss by (simp add: issue_settle_index)
    ultimately show ?thesis using nodes' by blast
  next
    case False
    have step: "settle_call fetch (tree', ?proms) k = (tree', ?proms)"
    proof (cases "k < N")
      case True
      then have "k \<in> set order" using False by simp
      then show ?thesis using True by (simp add: settle_call_def)
    next
      case False
      then show ?thesis by (simp add: settle_call_def)
    qed
    have same: "(j \<in> set (order @ [k])) = (j \<in> set order)" if "j < N" for j
      using False that by auto
    have proms: "?proms = map (\<lambda>j. if j \<in> set (order @ [k]) then Fulfilled () else Pending) [0..<N]"
      using same by (simp add: list_eq_iff_nth_eq)
    have nodes': "all_nodes tree' = map (\<lambda>j. if j \<in> set (order @ [k])
                     then loadRelatedRecordsForNote (fetch j) (all_nodes tree ! j)
                     else all_nodes tree ! j) [0..<N]"
      using same by (simp add: nodes list_eq_iff_nth_eq)
    have "foldl (settle_call fetch) (tree, map (\<lambda>t. Pending) (issue 0 tree)) (order @ [k]) =
          (tree', map (\<lambda>j. if j \<in> set (order @ [k]) then Fulfilled () else Pending) [0..<N])"
      using run step proms by simp
    then show ?thesis using reset iss nodes' by blast
  qed
qed

lemma loadAllRelatedRecords_result:
  fixes tree :: "'a parentNote_scheme list"
  shows "\<exists>tree'. loadAllRelatedRecords env tree =
           ((if \<forall>k<length (all_nodes tree). k \<in> set (settled env) then Fulfilled () else Pending),
            tree') \<and>
         map reset_parent tree' = map reset_parent tree \<and>
         all_nodes tree' =
           map (\<lambda>k. if k \<in> set (settled env)
                     then loadRelatedRecordsForNote (getLinkedRecords env k) (all_nodes tree ! k)
                     else all_nodes tree ! k) [0..<length (all_nodes tree)]"
proof -
  from run_invariant [of "getLinkedRecords env" tree "settled env"]
  obtain tree' where
    run: "foldl (settle_call (getLinkedRecords env)) (tree, map (\<lambda>t. Pending) (issue 0 tree))
            (settled env) =
           (tree', map (\<lambda>k. if k \<in> set (settled env) then Fulfilled () else Pending)
                     [0..<length (all_nodes tree)])" and
    rest: "map reset_parent tree' = map reset_parent tree"
      "all_nodes tree' =
           map (\<lambda>k. if k \<in> set (settled env)
                     then loadRelatedRecordsForNote (getLinkedRecords env k) (all_nodes tree ! k)
                     else all_nodes tree ! k) [0..<length (all_nodes tree)]"
    by blast
  have "loadAllRelatedRecords env tree =
           ((if \<forall>k<length (all_nodes tree). k \<in> set (settled env) then Fulfilled () else Pending),
            tree')"
    unfolding loadAllRelatedRecords_def run
    by (simp add: promise_all_settled)
  then show ?thesis using rest by blast
qed

section \<open>The claims\<close>

lemma reset_parent_fields:
  "record_of (reset_parent p) = record_of p"
  "map record_of (replies (reset_parent p)) = map record_of (replies p)"
  "repliesExpanded (reset_parent p) = repliesExpanded p"
  "parentNote.more (reset_parent p) = parentNote.more p"
  by (simp_all add: reset_parent_def reset_node_def record_of_def comp_def)

lemma tree_view_reset: "tree_view (map reset_parent tree) = tree_view tree"
  by (simp add: tree_view_def reset_parent_fields comp_def)

lemma tree_view_enriched:
  "map reset_parent tree' = map reset_parent tree \<Longrightarrow> tree_view tree' = tree_view tree"
  by (metis tree_view_reset)

lemma loadAllRelatedRecords_view:
  "loadAllRelatedRecords env tree = (p, tree') \<Longrightarrow> tree_view tree' = tree_view tree"
  using loadAllRelatedRecords_result [of env tree] by (auto intro: tree_view_enriched)

lemma note_processNotes_Fulfilled:
  assumes "note_processNotes env (Array raws) this = (Fulfilled tree, this')"
  shows "\<exists>tree0. note_build (toLocaleDateString env) raws this = Inr (tree0, this') \<and>
           loadAllRelatedRecords env tree0 = (Fulfilled (), tree)"
  using assms
  by (auto simp: note_processNotes_def split: sum.splits prod.splits promise.splits)

lemma nc_processNotes_Fulfilled:
  assumes "nc_processNotes env (Array raws) this = (Fulfilled tree, this')"
  shows "\<exists>tree0. nc_build (toLocaleDateString env) raws this = Inr (tree0, this') \<and>
           loadAllRelatedRecords env tree0 = (Fulfilled (), tree)"
  using assms
  by (auto simp: nc_processNotes_def split: sum.splits prod.splits promise.splits)

lemma note_processNotes_view:
  "note_processNotes env (Array raws) this = (Fulfilled tree, this') \<Longrightarrow>
   in_input_order raws (tree_view tree)"
  by (metis note_processNotes_Fulfilled note_build_view loadAllRelatedRecords_view)

lemma nc_processNotes_view:
  "nc_processNotes env (Array raws) this = (Fulfilled tree, this') \<Longrightarrow>
   in_input_order raws (tree_view tree)"
  by (metis nc_processNotes_Fulfilled nc_build_view loadAllRelatedRecords_view)

subsection \<open>What a view in input order holds\<close>

lemma in_input_order_nth:
  "in_input_order raws view \<Longrightarrow> i < length view \<Longrightarrow>
   snd (view ! i) = filter (\<lambda>n. truthy (Is_Reply__c n) \<and>
                               last_at (map (note_Id \<circ> fst) view) (Parent_Note__c n) i) raws"
  unfolding in_input_order_def list_all_iff by simp

lemma in_input_order_roots:
  "in_input_order raws view \<Longrightarrow> (r, rs) \<in> set view \<Longrightarrow> r \<in> set raws \<and> is_root r"
proof -
  assume a: "in_input_order raws view" and b: "(r, rs) \<in> set view"
  have "r \<in> set (map fst view)" using b by force
  then have "r \<in> set (filter is_root raws)" using a unfolding in_input_order_def by metis
  then show ?thesis by simp
qed

lemma in_input_order_replies:
  assumes a: "in_input_order raws view" and b: "(r, rs) \<in> set view" and c: "q \<in> set rs"
  shows "q \<in> set raws \<and> truthy (Is_Reply__c q) \<and> Parent_Note__c q = note_Id r"
proof -
  from b obtain i where i: "i < length view" "view ! i = (r, rs)"
    by (auto simp: in_set_conv_nth)
  from in_input_order_nth [OF a i(1)] i(2)
  have "rs = filter (\<lambda>n. truthy (Is_Reply__c n) \<and>
                               last_at (map (note_Id \<circ> fst) view) (Parent_Note__c n) i) raws"
    by simp
  with c have "q \<in> set raws" "truthy (Is_Reply__c q)"
    "last_at (map (note_Id \<circ> fst) view) (Parent_Note__c q) i" by auto
  then show ?thesis using i by (auto simp: last_at_def)
qed

lemma in_input_order_orphan:
  assumes a: "in_input_order raws view" and t: "truthy (Is_Reply__c r)"
    and o: "Parent_Note__c r \<notin> set (map note_Id (filter is_root raws))"
  shows "r \<notin> view_records view"
proof
  assume "r \<in> view_records view"
  then consider rs where "(r, rs) \<in> set view" | p rs where "(p, rs) \<in> set view" "r \<in> set rs"
    by (auto simp: view_records_def)
  then show False
  proof cases
    case 1
    then show ?thesis using in_input_order_roots [OF a 1] t by (simp add: is_root_def)
  next
    case 2
    from in_input_order_replies [OF a 2] in_input_order_roots [OF a 2(1)] o
    show ?thesis by auto
  qed
qed

lemma in_input_order_no_dangling: "in_input_order raws view \<Longrightarrow> no_dangling view"
  using in_input_order_replies by (fastforce simp: no_dangling_def list_all_iff)

lemma in_input_order_distinct:
  assumes a: "in_input_order raws view" and d: "distinct (map note_Id (filter is_root raws))"
    and b: "(r, rs) \<in> set view"
  shows "rs = filter (\<lambda>n. truthy (Is_Reply__c n) \<and> Parent_Note__c n = note_Id r) raws"
proof -
  let ?ids = "map (note_Id \<circ> fst) view"
  have ids: "?ids = map note_Id (filter is_root raws)"
    using a by (metis in_input_order_def map_map)
  from b obtain i where i: "i < length view" "view ! i = (r, rs)"
    by (auto simp: in_set_conv_nth)
  have "last_at ?ids k i = (k = note_Id r)" for k
  proof -
    have "distinct ?ids" using d ids by simp
    then have "?ids ! i \<notin> set (drop (Suc i) ?ids)"
      using i(1) by (metis Cons_nth_drop_Suc distinct.simps(2) distinct_drop length_map)
    then show ?thesis using i by (auto simp: last_at_def)
  qed
  moreover from in_input_order_nth [OF a i(1)] i(2)
  have "rs = filter (\<lambda>n. truthy (Is_Reply__c n) \<and>
                               last_at ?ids (Parent_Note__c n) i) raws"
    by simp
  ultimately show ?thesis by simp
qed

lemma in_input_order_threads:
  assumes a: "in_input_order raws view" and d: "distinct (map note_Id (filter is_root raws))"
  shows "view = threads raws"
proof -
  have "view = map (\<lambda>r. (r, filter (\<lambda>n. truthy (Is_Reply__c n) \<and> Parent_Note__c n = note_Id r) raws))
                 (map fst view)"
  proof (rule nth_equalityI)
    show "length view = length (map (\<lambda>r. (r, filter (\<lambda>n. truthy (Is_Reply__c n) \<and>
              Parent_Note__c n = note_Id r) raws)) (map fst view))"
      by simp
  next
    fix i assume i: "i < length view"
    then have "(fst (view ! i), snd (view ! i)) \<in> set view" by simp
    from in_input_order_distinct [OF a d this] i
    show "view ! i = map (\<lambda>r. (r, filter (\<lambda>n. truthy (Is_Reply__c n) \<and>
              Parent_Note__c n = note_Id r) raws)) (map fst view) ! i"
      by (simp add: prod_eq_iff)
  qed
  moreover have "map fst view = filter is_root raws"
    using a by (simp add: in_input_order_def)
  ultimately show ?thesis by (simp add: threads_def)
qed

text \<open>The scenario of the specification: one root \<^verbatim>\<open>A\<close> with one reply \<^verbatim>\<open>B\<close>; \<^verbatim>\<open>C\<close> is dropped.\<close>

lemma scenario_tree:
  "map_sum id plain_view (plain_processNotes (Array scenario)) =
     Inr [(example_note ''A'' False JNull, [example_note ''B'' True (JStr ''A'')])]"
  by code_simp

lemma ex_fulfilled: "is_fulfilled (fst (note_processNotes example_env (Array scenario) example_this))"
  by code_simp

lemma ex_fulfilled_nc: "is_fulfilled (fst (nc_processNotes example_env (Array scenario) nc_example_this))"
  by code_simp

lemma is_fulfilledE: "is_fulfilled (fst r) \<Longrightarrow> \<exists>x s. r = (Fulfilled x, s)"
  by (cases r; cases "fst r") auto

text \<open>
  C3. For every flat list the tree keeps the input order at both levels, in all three
  files: seen as records, the roots are exactly the records whose reply flag is not truthy,
  in input order, and the replies of a root are exactly the reply records whose parent
  link is its \<^verbatim>\<open>Id\<close>, in input order (\<open>in_input_order\<close>). Nothing is sorted. Where several
  roots carry one \<^verbatim>\<open>Id\<close> the map keeps the last of them, which then has all the replies
  (\<open>last_at\<close>); with distinct root \<^verbatim>\<open>Id\<close>s this case does not arise and the view is
  \<open>threads\<close> of the list (\<open>in_input_order_threads\<close>). The third file always returns a
  tree; the async files return it when their promise is fulfilled.
\<close>

theorem processNotes_preserves_input_order:
  "(\<exists>tree. plain_processNotes (Array rawNotes) = Inr tree \<and>
           in_input_order rawNotes (plain_view tree)) \<and>
   (\<forall>tree this'. note_processNotes env (Array rawNotes) this = (Fulfilled tree, this') \<longrightarrow>
           in_input_order rawNotes (tree_view tree)) \<and>
   (\<forall>tree this'. nc_processNotes env (Array rawNotes) nc_this = (Fulfilled tree, this') \<longrightarrow>
           in_input_order rawNotes (tree_view tree))"
  using plain_processNotes_view note_processNotes_view nc_processNotes_view by blast

theorem processNotes_preserves_input_order_witness:
  "(\<exists>tree. plain_processNotes (Array scenario) = Inr tree \<and>
           in_input_order scenario (plain_view tree)) \<and>
   (\<exists>tree this'. note_processNotes example_env (Array scenario) example_this = (Fulfilled tree, this') \<and>
           in_input_order scenario (tree_view tree)) \<and>
   (\<exists>tree this'. nc_processNotes example_env (Array scenario) nc_example_this = (Fulfilled tree, this') \<and>
           in_input_order scenario (tree_view tree))"
  using processNotes_preserves_input_order [of scenario example_env example_this nc_example_this]
    is_fulfilledE [OF ex_fulfilled] is_fulfilledE [OF ex_fulfilled_nc]
  by metis

text \<open>
  C2. A record whose reply flag is truthy and whose parent link is the \<^verbatim>\<open>Id\<close> of no root
  record of the list has no node in the tree, neither as a root nor as a reply under any
  root, and every reply that is in the tree carries the \<^verbatim>\<open>Id\<close> of the root it stands
  under; in all three files.
\<close>

theorem orphaned_reply_never_surfaces:
  assumes "truthy (Is_Reply__c r)"
    and "Parent_Note__c r \<notin> set (map note_Id (filter is_root rawNotes))"
  shows
  "(\<exists>tree. plain_processNotes (Array rawNotes) = Inr tree \<and>
           r \<notin> view_records (plain_view tree) \<and> no_dangling (plain_view tree)) \<and>
   (\<forall>tree this'. note_processNotes env (Array rawNotes) this = (Fulfilled tree, this') \<longrightarrow>
           r \<notin> view_records (tree_view tree) \<and> no_dangling (tree_view tree)) \<and>
   (\<forall>tree this'. nc_processNotes env (Array rawNotes) nc_this = (Fulfilled tree, this') \<longrightarrow>
           r \<notin> view_records (tree_view tree) \<and> no_dangling (tree_view tree))"
proof -
  note orphan = in_input_order_orphan [OF _ assms]
  obtain tree where "plain_processNotes (Array rawNotes) = Inr tree"
    "in_input_order rawNotes (plain_view tree)"
    using plain_processNotes_view by blast
  then have "\<exists>tree. plain_processNotes (Array rawNotes) = Inr tree \<and>
           r \<notin> view_records (plain_view tree) \<and> no_dangling (plain_view tree)"
    using orphan in_input_order_no_dangling by blast
  moreover have "r \<notin> view_records (tree_view tree) \<and> no_dangling (tree_view tree)"
    if "note_processNotes env (Array rawNotes) this = (Fulfilled tree, this')" for tree this'
    using note_processNotes_view [OF that] orphan in_input_order_no_dangling by blast
  moreover have "r \<notin> view_records (tree_view tree) \<and> no_dangling (tree_view tree)"
    if "nc_processNotes env (Array rawNotes) nc_this = (Fulfilled tree, this')" for tree this'
    using nc_processNotes_view [OF that] orphan in_input_order_no_dangling by blast
  ultimately show ?thesis by blast
qed

lemma scenario_orphan:
  "truthy (Is_Reply__c (example_note ''C'' True (JStr ''X'')))"
  "Parent_Note__c (example_note ''C'' True (JStr ''X'')) \<notin>
     set (map note_Id (filter is_root scenario))"
  "example_note ''C'' True (JStr ''X'') \<in> set scenario"
  by code_simp+

theorem orphaned_reply_never_surfaces_witness:
  "example_note ''C'' True (JStr ''X'') \<in> set scenario \<and>
   truthy (Is_Reply__c (example_note ''C'' True (JStr ''X''))) \<and>
   Parent_Note__c (example_note ''C'' True (JStr ''X'')) \<notin>
     set (map note_Id (filter is_root scenario)) \<and>
   (\<exists>tree. plain_processNotes (Array scenario) = Inr tree \<and>
      example_note ''C'' True (JStr ''X'') \<notin> view_records (plain_view tree)) \<and>
   (\<exists>tree this'. note_processNotes example_env (Array scenario) example_this =
        (Fulfilled tree, this') \<and>
      example_note ''C'' True (JStr ''X'') \<notin> view_records (tree_view tree)) \<and>
   (\<exists>tree this'. nc_processNotes example_env (Array scenario) nc_example_this =
        (Fulfilled tree, this') \<and>
      example_note ''C'' True (JStr ''X'') \<notin> view_records (tree_view tree))"
  using orphaned_reply_never_surfaces [OF scenario_orphan(1,2), of example_env example_this
      nc_example_this]
    is_fulfilledE [OF ex_fulfilled] is_fulfilledE [OF ex_fulfilled_nc] scenario_orphan
  by metis

text \<open>
  C10. When the argument of \<^verbatim>\<open>processNotes\<close> is not an array (\<^verbatim>\<open>null\<close>, \<^verbatim>\<open>undefined\<close> or any
  other value), each of the three files returns the empty list and throws nothing; the
  async files fulfil their promise with it and leave the component as it was.
\<close>

theorem processNotes_not_an_array:
  "plain_processNotes (NotArray v) = Inr [] \<and>
   note_processNotes env (NotArray v) this = (Fulfilled [], this) \<and>
   nc_processNotes env (NotArray v) nc_this = (Fulfilled [], nc_this)"
  by (simp add: plain_processNotes_def note_processNotes_def nc_processNotes_def)

theorem processNotes_not_an_array_witness:
  "plain_processNotes (NotArray JNull) = Inr [] \<and>
   plain_processNotes (NotArray JUndefined) = Inr [] \<and>
   plain_processNotes (NotArray (JStr ''notes'')) = Inr [] \<and>
   note_processNotes example_env (NotArray JNull) example_this = (Fulfilled [], example_this) \<and>
   note_processNotes example_env (NotArray JUndefined) example_this =
     (Fulfilled [], example_this) \<and>
   nc_processNotes example_env (NotArray JNull) nc_example_this =
     (Fulfilled [], nc_example_this) \<and>
   nc_processNotes example_env (NotArray JUndefined) nc_example_this =
     (Fulfilled [], nc_example_this)"
  using processNotes_not_an_array [of JNull example_env example_this nc_example_this]
    processNotes_not_an_array [of JUndefined example_env example_this nc_example_this]
    processNotes_not_an_array [of "JStr ''notes''" example_env example_this nc_example_this]
  by simp

lemma load_not_unresolved: "\<not> unresolved (loadRelatedRecordsForNote fetched n)"
  by (simp add: unresolved_def loadRelatedRecordsForNote_def split: outcome.splits)

lemma processNotes_fully_enriched:
  "note_processNotes env (Array raws) this = (Fulfilled tree, this') \<Longrightarrow>
   n \<in> set (all_nodes tree) \<Longrightarrow> \<not> unresolved n"
proof -
  assume "note_processNotes env (Array raws) this = (Fulfilled tree, this')"
    and n: "n \<in> set (all_nodes tree)"
  then obtain tree0 where l: "loadAllRelatedRecords env tree0 = (Fulfilled (), tree)"
    using note_processNotes_Fulfilled by blast
  let ?N = "length (all_nodes tree0)"
  from loadAllRelatedRecords_result [of env tree0] l
  have all: "\<forall>k<?N. k \<in> set (settled env)"
    and nodes: "all_nodes tree =
           map (\<lambda>k. if k \<in> set (settled env)
                     then loadRelatedRecordsForNote (getLinkedRecords env k) (all_nodes tree0 ! k)
                     else all_nodes tree0 ! k) [0..<?N]"
    by (auto split: if_splits)
  from n nodes all obtain k where
    "n = loadRelatedRecordsForNote (getLinkedRecords env k) (all_nodes tree0 ! k)"
    by auto
  then show ?thesis by (simp add: load_not_unresolved)
qed

text \<open>
  C1. When the promise of \<^verbatim>\<open>loadAllRelatedRecords\<close> is fulfilled, every call it issued (one
  for each root and each reply) has settled, and the tree it leaves is the tree handed in
  with every node enriched: nothing but the enrichment fields has changed, no node was
  added or lost, each node is the node handed in after the rest of its own
  \<^verbatim>\<open>loadRelatedRecordsForNote\<close> has run on the outcome of its own call, and no node is still
  loading with an empty \<^verbatim>\<open>relatedRecordsDisplay\<close>.
\<close>

theorem loadAllRelatedRecords_completion:
  assumes "loadAllRelatedRecords env tree = (Fulfilled (), tree')"
  shows "(\<forall>k<length (issue 0 tree). k \<in> set (settled env)) \<and>
         map reset_parent tree' = map reset_parent tree \<and>
         length (all_nodes tree') = length (all_nodes tree) \<and>
         (\<forall>k<length (all_nodes tree).
            all_nodes tree' ! k =
              loadRelatedRecordsForNote (getLinkedRecords env k) (all_nodes tree ! k)) \<and>
         (\<forall>n \<in> set (all_nodes tree'). \<not> (isLoading n \<and> relatedRecordsDisplay n = []))"
proof -
  let ?N = "length (all_nodes tree)"
  from loadAllRelatedRecords_result [of env tree] assms
  have all: "\<forall>k<?N. k \<in> set (settled env)"
    and frame: "map reset_parent tree' = map reset_parent tree"
    and nodes: "all_nodes tree' =
           map (\<lambda>k. if k \<in> set (settled env)
                     then loadRelatedRecordsForNote (getLinkedRecords env k) (all_nodes tree ! k)
                     else all_nodes tree ! k) [0..<?N]"
    by (auto split: if_splits)
  have len: "length (all_nodes tree') = ?N"
    by (simp add: nodes)
  have each: "all_nodes tree' ! k =
      loadRelatedRecordsForNote (getLinkedRecords env k) (all_nodes tree ! k)"
    if "k < ?N" for k
    using that all by (simp add: nodes)
  have "\<not> (isLoading n \<and> relatedRecordsDisplay n = [])" if "n \<in> set (all_nodes tree')" for n
  proof -
    from that len obtain k where "k < ?N" "n = all_nodes tree' ! k"
      by (metis in_set_conv_nth)
    then have "n = loadRelatedRecordsForNote (getLinkedRecords env k) (all_nodes tree ! k)"
      using each by simp
    then show ?thesis using load_not_unresolved [of "getLinkedRecords env k" "all_nodes tree ! k"]
      by (simp add: unresolved_def)
  qed
  then show ?thesis using all frame len each by (simp add: length_issue)
qed

lemma load_succeeds: "resolved_as linked (loadRelatedRecordsForNote (Succeeds linked) n)"
  by (auto simp: resolved_as_def loadRelatedRecordsForNote_def split: option.splits list.splits)

lemma load_fails: "failed (loadRelatedRecordsForNote (Fails error) n)"
  by (simp add: failed_def loadRelatedRecordsForNote_def)

lemma loadAllRelatedRecords_node:
  assumes "loadAllRelatedRecords env tree = (p, tree')"
    and "k < length (all_nodes tree)"
  shows "length (all_nodes tree') = length (all_nodes tree) \<and>
         all_nodes tree' ! k =
           (if k \<in> set (settled env)
            then loadRelatedRecordsForNote (getLinkedRecords env k) (all_nodes tree ! k)
            else all_nodes tree ! k)"
  using loadAllRelatedRecords_result [of env tree] assms by auto

lemma loadAllRelatedRecords_all_settled:
  assumes "\<forall>k<length (all_nodes tree). k \<in> set (settled env)"
  shows "\<exists>tree'. loadAllRelatedRecords env tree = (Fulfilled (), tree')"
  using loadAllRelatedRecords_result [of env tree] assms by auto

text \<open>
  The promise is fulfilled exactly when every call has settled, and never rejected; with
  one call outstanding it is pending.
\<close>

lemma loadAllRelatedRecords_fulfilled_iff:
  "(fst (loadAllRelatedRecords env tree) = Fulfilled ()) =
     (\<forall>k<length (issue 0 tree). k \<in> set (settled env))"
  using loadAllRelatedRecords_result [of env tree]
  by (auto simp: length_issue split: if_splits)

lemma loadAllRelatedRecords_never_rejects:
  "fst (loadAllRelatedRecords env tree) \<noteq> Rejected e"
  using loadAllRelatedRecords_result [of env tree] by (auto split: if_splits)

lemma example_tree_nodes: "length (all_nodes example_tree) = 2"
  by code_simp

lemma one_call_outstanding:
  "fst (loadAllRelatedRecords (example_env\<lparr>settled := [1]\<rparr>) example_tree) = Pending"
  by code_simp

lemma example_all_settled: "\<forall>k<length (all_nodes example_tree). k \<in> set (settled example_env)"
  unfolding example_tree_nodes by (auto simp: example_env_def less_2_cases_iff)

theorem loadAllRelatedRecords_completion_witness:
  "\<exists>tree'. loadAllRelatedRecords example_env example_tree = (Fulfilled (), tree') \<and>
      length (issue 0 example_tree) = 2 \<and>
      set [0..<length (issue 0 example_tree)] \<subseteq> set (settled example_env) \<and>
      map reset_parent tree' = map reset_parent example_tree \<and>
      length (all_nodes tree') = 2 \<and>
      relatedRecordsDisplay (all_nodes tree' ! 0) = ''Acme, Bolt'' \<and>
      relatedRecordsDisplay (all_nodes tree' ! 1) = ''Current record only'' \<and>
      list_all (\<lambda>n. \<not> (isLoading n \<and> relatedRecordsDisplay n = [])) (all_nodes tree')"
proof -
  obtain tree' where run: "loadAllRelatedRecords example_env example_tree = (Fulfilled (), tree')"
    using loadAllRelatedRecords_all_settled [OF example_all_settled] by blast
  note completed = loadAllRelatedRecords_completion [OF run]
  have "all_nodes tree' ! 0 =
      loadRelatedRecordsForNote (getLinkedRecords example_env 0) (all_nodes example_tree ! 0)"
    "all_nodes tree' ! 1 =
      loadRelatedRecordsForNote (getLinkedRecords example_env 1) (all_nodes example_tree ! 1)"
    using completed by (simp_all add: example_tree_nodes)
  then have shown: "relatedRecordsDisplay (all_nodes tree' ! 0) = ''Acme, Bolt''"
    "relatedRecordsDisplay (all_nodes tree' ! 1) = ''Current record only''"
    by (simp_all add: loadRelatedRecordsForNote_def example_env_def example_linked_def)
  have "set [0..<length (issue 0 example_tree)] \<subseteq> set (settled example_env)"
    using completed by auto
  moreover have "list_all (\<lambda>n. \<not> (isLoading n \<and> relatedRecordsDisplay n = []))
      (all_nodes tree')"
    using completed by (simp add: list_all_iff)
  moreover have "map reset_parent tree' = map reset_parent example_tree"
    "length (all_nodes tree') = 2"
    using completed by (simp_all add: example_tree_nodes)
  ultimately show ?thesis
    using run shown example_tree_nodes by (simp add: length_issue)
qed

text \<open>
  C4. When every call settles, the call for node \<open>j\<close> is rejected and all others succeed,
  the promise of \<^verbatim>\<open>loadAllRelatedRecords\<close> is fulfilled, node \<open>j\<close> shows
  \<^verbatim>\<open>Error loading related records\<close> with an empty list of linked records, and every other
  node is resolved with the result of its own call.
\<close>

theorem single_failure_is_isolated:
  assumes "\<forall>k<length (all_nodes tree). k \<in> set (settled env)"
    and "j < length (all_nodes tree)"
    and "getLinkedRecords env j = Fails error"
    and "\<forall>k<length (all_nodes tree). k \<noteq> j \<longrightarrow>
           (\<exists>linked. getLinkedRecords env k = Succeeds linked)"
  shows "\<exists>tree'. loadAllRelatedRecords env tree = (Fulfilled (), tree') \<and>
           length (all_nodes tree') = length (all_nodes tree) \<and>
           failed (all_nodes tree' ! j) \<and>
           (\<forall>k<length (all_nodes tree). k \<noteq> j \<longrightarrow>
              (\<exists>linked. getLinkedRecords env k = Succeeds linked \<and>
                 resolved_as linked (all_nodes tree' ! k)))"
proof -
  obtain tree' where run: "loadAllRelatedRecords env tree = (Fulfilled (), tree')"
    using loadAllRelatedRecords_all_settled [OF assms(1)] by blast
  have len: "length (all_nodes tree') = length (all_nodes tree)"
    using loadAllRelatedRecords_node [OF run assms(2)] by simp
  have node: "all_nodes tree' ! k =
      loadRelatedRecordsForNote (getLinkedRecords env k) (all_nodes tree ! k)"
    if "k < length (all_nodes tree)" for k
    using loadAllRelatedRecords_node [OF run that] assms(1) that by simp
  have "failed (all_nodes tree' ! j)"
    using node [OF assms(2)] assms(3) by (simp add: load_fails)
  moreover have "\<exists>linked. getLinkedRecords env k = Succeeds linked \<and>
                 resolved_as linked (all_nodes tree' ! k)"
    if "k < length (all_nodes tree)" "k \<noteq> j" for k
  proof -
    from assms(4) that obtain linked where "getLinkedRecords env k = Succeeds linked" by blast
    then show ?thesis using node [OF that(1)] by (simp add: load_succeeds)
  qed
  ultimately show ?thesis using run len by blast
qed

lemma failing_env_facts:
  "\<forall>k<length (all_nodes example_tree). k \<in> set (settled failing_env)"
  "(1::nat) < length (all_nodes example_tree)"
  "getLinkedRecords failing_env 1 = Fails (ApexError (JStr ''Server error'') JUndefined)"
  "\<forall>k<length (all_nodes example_tree). k \<noteq> 1 \<longrightarrow>
           (\<exists>linked. getLinkedRecords failing_env k = Succeeds linked)"
  unfolding example_tree_nodes
  by (auto simp: failing_env_def example_env_def less_2_cases_iff)

theorem single_failure_is_isolated_witness:
  "\<exists>tree'. loadAllRelatedRecords failing_env example_tree = (Fulfilled (), tree') \<and>
      length (all_nodes tree') = 2 \<and>
      failed (all_nodes tree' ! 1) \<and>
      resolved_as (Some [example_linked ''Acme'', example_linked ''Bolt'']) (all_nodes tree' ! 0) \<and>
      relatedRecordsDisplay (all_nodes tree' ! 0) = ''Acme, Bolt''"
proof -
  from single_failure_is_isolated [OF failing_env_facts]
  obtain tree' where t: "loadAllRelatedRecords failing_env example_tree = (Fulfilled (), tree')"
    "length (all_nodes tree') = length (all_nodes example_tree)"
    "failed (all_nodes tree' ! 1)"
    "\<forall>k<length (all_nodes example_tree). k \<noteq> 1 \<longrightarrow>
              (\<exists>linked. getLinkedRecords failing_env k = Succeeds linked \<and>
                 resolved_as linked (all_nodes tree' ! k))"
    by blast
  have "getLinkedRecords failing_env 0 =
          Succeeds (Some [example_linked ''Acme'', example_linked ''Bolt''])"
    by (simp add: failing_env_def)
  moreover from t(4) have "\<exists>linked. getLinkedRecords failing_env 0 = Succeeds linked \<and>
      resolved_as linked (all_nodes tree' ! 0)"
    by (simp add: example_tree_nodes)
  ultimately have r: "resolved_as (Some [example_linked ''Acme'', example_linked ''Bolt''])
      (all_nodes tree' ! 0)"
    by auto
  then have "relatedRecordsDisplay (all_nodes tree' ! 0) = ''Acme, Bolt''"
    by (simp add: resolved_as_def example_linked_def)
  then show ?thesis using t r by (auto simp: example_tree_nodes)
qed

text \<open>
  C6. A node whose call has succeeded shows, for a non-empty result, the names of the
  records joined by a comma and a space and holds the result as its linked records;
  for an empty (or \<^verbatim>\<open>null\<close>) result it shows \<^verbatim>\<open>Current record only\<close> and holds the empty list.
\<close>

theorem successful_fetch_resolves_node:
  assumes "loadAllRelatedRecords env tree = (p, tree')"
    and "k < length (all_nodes tree)"
    and "k \<in> set (settled env)"
    and "getLinkedRecords env k = Succeeds linked"
  shows "\<not> isLoading (all_nodes tree' ! k) \<and>
         (\<forall>records. linked = Some records \<and> records \<noteq> [] \<longrightarrow>
            relatedRecordsDisplay (all_nodes tree' ! k) = js_join '', '' (map Name records) \<and>
            linkedRecords (all_nodes tree' ! k) = Some records) \<and>
         (linked = None \<or> linked = Some [] \<longrightarrow>
            relatedRecordsDisplay (all_nodes tree' ! k) = ''Current record only'' \<and>
            linkedRecords (all_nodes tree' ! k) = Some [])"
  using loadAllRelatedRecords_node [OF assms(1,2)] assms(3,4)
  by (auto simp: loadRelatedRecordsForNote_def)

lemma example_env_facts:
  "(0::nat) < length (all_nodes example_tree)"
  "(1::nat) < length (all_nodes example_tree)"
  "0 \<in> set (settled example_env)"
  "1 \<in> set (settled example_env)"
  "getLinkedRecords example_env 0 = Succeeds (Some [example_linked ''Acme'', example_linked ''Bolt''])"
  "getLinkedRecords example_env 1 = Succeeds (Some [])"
  unfolding example_tree_nodes by (simp_all add: example_env_def)

theorem successful_fetch_resolves_node_witness:
  "\<exists>tree'. loadAllRelatedRecords example_env example_tree = (Fulfilled (), tree') \<and>
     relatedRecordsDisplay (all_nodes tree' ! 0) = ''Acme, Bolt'' \<and>
     linkedRecords (all_nodes tree' ! 0) = Some [example_linked ''Acme'', example_linked ''Bolt''] \<and>
     relatedRecordsDisplay (all_nodes tree' ! 1) = ''Current record only'' \<and>
     linkedRecords (all_nodes tree' ! 1) = Some []"
proof -
  obtain tree' where run: "loadAllRelatedRecords example_env example_tree = (Fulfilled (), tree')"
    using loadAllRelatedRecords_all_settled [OF example_all_settled] by blast
  from successful_fetch_resolves_node [OF run example_env_facts(1,3,5)]
    successful_fetch_resolves_node [OF run example_env_facts(2,4,6)]
  show ?thesis using run by (auto simp: example_linked_def)
qed

lemma expansion_lookup:
  "(last_at (map note_Id prior) k j \<longrightarrow>
      foldl (\<lambda>m n. m(note_Id n \<mapsto> f n)) Map.empty prior k = Some (f (prior ! j))) \<and>
   (k \<notin> set (map note_Id prior) \<longrightarrow>
      foldl (\<lambda>m n. m(note_Id n \<mapsto> f n)) Map.empty prior k = None)"
proof (induction prior arbitrary: j rule: rev_induct)
  case Nil
  then show ?case by (simp add: last_at_def)
next
  case (snoc n prior)
  show ?case
  proof (cases "k = note_Id n")
    case True
    then show ?thesis by (simp add: last_at_snoc_same)
  next
    case False
    then have "last_at (map note_Id (prior @ [n])) k j = last_at (map note_Id prior) k j"
      by (simp add: last_at_snoc_other)
    moreover have "last_at (map note_Id prior) k j \<Longrightarrow> (prior @ [n]) ! j = prior ! j"
      by (simp add: last_at_def nth_append)
    ultimately show ?thesis using False snoc.IH [of j] by auto
  qed
qed

lemma currentExpansionStates_lookup:
  "(last_at (map note_Id prior) k j \<longrightarrow>
      get_or_false (currentExpansionStates prior) k = repliesExpanded (prior ! j)) \<and>
   (k \<notin> set (map note_Id prior) \<longrightarrow> get_or_false (currentExpansionStates prior) k = False)"
  using expansion_lookup [of prior k j repliesExpanded]
  by (cases prior) (auto simp: currentExpansionStates_def get_or_false_def last_at_def)

lemma currentRepliesExpansion_lookup:
  "(last_at (map note_Id prior) k j \<longrightarrow>
      get_or_false (currentRepliesExpansion prior) k = repliesExpanded (prior ! j)) \<and>
   (k \<notin> set (map note_Id prior) \<longrightarrow> get_or_false (currentRepliesExpansion prior) k = False)"
  using expansion_lookup [of prior k j repliesExpanded]
  by (cases prior) (auto simp: currentRepliesExpansion_def get_or_false_def last_at_def)

lemma currentNoteExpansion_lookup:
  "(last_at (map note_Id prior) k j \<longrightarrow>
      get_not_false (currentNoteExpansion prior) k = isExpanded (prior ! j)) \<and>
   (k \<notin> set (map note_Id prior) \<longrightarrow> get_not_false (currentNoteExpansion prior) k = True)"
  using expansion_lookup [of prior k j isExpanded]
  by (cases prior) (auto simp: currentNoteExpansion_def get_not_false_def last_at_def)

text \<open>Every parent of the tree is a parent object of the first pass, with replies set.\<close>

lemma passes_parent:
  fixes mk :: "note_record \<Rightarrow> js_error + 'a parentNote_scheme"
  assumes fp: "firstPass mk raws (Map.empty, []) = Inr (m, ps)"
    and p: "p \<in> set (secondPass push_reply m raws ps)"
  shows "\<exists>n p0 rs. n \<in> set raws \<and> is_root n \<and> mk n = Inr p0 \<and> p = p0\<lparr>replies := rs\<rparr>"
proof -
  let ?tree = "secondPass push_reply m raws ps"
  have tp: "list_all2 (\<lambda>n p. mk n = Inr p) (filter is_root raws) ps"
    "length ?tree = length ps"
    "\<And>i. i < length ps \<Longrightarrow> ?tree ! i =
           foldl push_reply (ps ! i)
             (filter (\<lambda>n. truthy (Is_Reply__c n) \<and>
                last_at (map note_Id (filter is_root raws)) (Parent_Note__c n) i) raws)"
    using two_passes [OF fp, where push = push_reply] by simp_all
  from p tp(2) obtain i where i: "i < length ps" "?tree ! i = p"
    by (auto simp: in_set_conv_nth)
  have "\<exists>rs. p = (ps ! i)\<lparr>replies := rs\<rparr>"
    using tp(3) [OF i(1)] i(2) by (auto simp: foldl_push_reply)
  moreover have "mk (filter is_root raws ! i) = Inr (ps ! i)" "i < length (filter is_root raws)"
    using tp(1) i(1) by (auto simp: list_all2_conv_all_nth)
  moreover then have "filter is_root raws ! i \<in> set (filter is_root raws)"
    using nth_mem by blast
  ultimately show ?thesis by (metis (mono_tags, lifting) mem_Collect_eq set_filter)
qed

lemma note_build_expanded:
  assumes "note_build f raws this = Inr (tree, this')" and "p \<in> set tree"
  shows "repliesExpanded p = get_or_false (currentExpansionStates (this_notes this)) (note_Id p)"
proof -
  from assms obtain m ps where
    fp: "firstPass (note_mkParent f (currentExpansionStates (this_notes this))) raws (Map.empty, []) = Inr (m, ps)"
    and t: "tree = secondPass push_reply m raws ps"
    by (auto simp: note_build_def split: sum.splits)
  from passes_parent [OF fp] assms(2) t obtain n p0 rs where
    mk: "note_mkParent f (currentExpansionStates (this_notes this)) n = Inr p0"
    and pp: "p = p0\<lparr>replies := rs\<rparr>"
    by blast
  from mk have "repliesExpanded p0 = get_or_false (currentExpansionStates (this_notes this)) (note_Id p0)"
    by (auto simp: note_mkParent_def Let_def split: sum.splits)
  then show ?thesis by (simp add: pp)
qed

lemma nc_build_expanded:
  assumes "nc_build f raws this = Inr (tree, this')" and "p \<in> set tree"
  shows "repliesExpanded p = get_or_false (currentRepliesExpansion (this_notes this)) (note_Id p) \<and>
         isExpanded p = get_not_false (currentNoteExpansion (this_notes this)) (note_Id p)"
proof -
  let ?mk = "nc_mkParent f (currentRepliesExpansion (this_notes this))
               (currentNoteExpansion (this_notes this))"
  from assms obtain m ps where
    fp: "firstPass ?mk raws (Map.empty, []) = Inr (m, ps)"
    and t: "tree = map setButtonLabel (secondPass push_reply m raws ps)"
    by (auto simp: nc_build_def split: sum.splits)
  from assms(2) t obtain q where q: "q \<in> set (secondPass push_reply m raws ps)"
    and pq: "p = setButtonLabel q"
    by auto
  from passes_parent [OF fp q] obtain n p0 rs where
    mk: "?mk n = Inr p0" and qq: "q = p0\<lparr>replies := rs\<rparr>"
    by blast
  from mk have
    "repliesExpanded p0 = get_or_false (currentRepliesExpansion (this_notes this)) (note_Id p0)"
    "isExpanded p0 = get_not_false (currentNoteExpansion (this_notes this)) (note_Id p0)"
    by (auto simp: nc_mkParent_def Let_def)
  then show ?thesis by (simp add: pq qq setButtonLabel_def)
qed

lemma reset_parent_kept:
  "note_Id (reset_parent p) = note_Id p"
  "repliesExpanded (reset_parent p) = repliesExpanded p"
  by (simp_all add: reset_parent_def reset_node_def)

lemma reset_parent_isExpanded: "isExpanded (reset_parent p) = isExpanded p"
  by (simp add: reset_parent_def reset_node_def)

lemma enriched_parent:
  assumes "loadAllRelatedRecords env tree0 = (pr, tree)" and "p \<in> set tree"
  shows "\<exists>p0 \<in> set tree0. reset_parent p = reset_parent p0"
proof -
  have "map reset_parent tree = map reset_parent tree0"
    using loadAllRelatedRecords_result [of env tree0] assms(1) by auto
  then have "reset_parent ` set tree = reset_parent ` set tree0"
    by (metis set_map)
  then show ?thesis using assms(2) by blast
qed

lemma note_processNotes_expanded:
  assumes "note_processNotes env (Array raws) this = (Fulfilled tree, this')" and "p \<in> set tree"
  shows "repliesExpanded p = get_or_false (currentExpansionStates (this_notes this)) (note_Id p)"
proof -
  from note_processNotes_Fulfilled [OF assms(1)] obtain tree0 where
    b: "note_build (toLocaleDateString env) raws this = Inr (tree0, this')" and
    l: "loadAllRelatedRecords env tree0 = (Fulfilled (), tree)"
    by blast
  from enriched_parent [OF l assms(2)] obtain p0 where
    p0: "p0 \<in> set tree0" "reset_parent p = reset_parent p0" by blast
  have "note_Id p = note_Id p0" "repliesExpanded p = repliesExpanded p0"
    using p0(2) by (metis reset_parent_kept(1), metis reset_parent_kept(2))
  then show ?thesis using note_build_expanded [OF b p0(1)] by simp
qed

lemma nc_processNotes_expanded:
  assumes "nc_processNotes env (Array raws) this = (Fulfilled tree, this')" and "p \<in> set tree"
  shows "repliesExpanded p = get_or_false (currentRepliesExpansion (this_notes this)) (note_Id p) \<and>
         isExpanded p = get_not_false (currentNoteExpansion (this_notes this)) (note_Id p)"
proof -
  from nc_processNotes_Fulfilled [OF assms(1)] obtain tree0 where
    b: "nc_build (toLocaleDateString env) raws this = Inr (tree0, this')" and
    l: "loadAllRelatedRecords env tree0 = (Fulfilled (), tree)"
    by blast
  from enriched_parent [OF l assms(2)] obtain p0 where
    p0: "p0 \<in> set tree0" "reset_parent p = reset_parent p0" by blast
  have "note_Id p = note_Id p0" "repliesExpanded p = repliesExpanded p0"
    "isExpanded p = isExpanded p0"
    using p0(2)
    by (metis reset_parent_kept(1), metis reset_parent_kept(2), metis reset_parent_isExpanded)
  then show ?thesis using nc_build_expanded [OF b p0(1)] by simp
qed

text \<open>
  C5. In the tree \<^verbatim>\<open>processNotes\<close> returns, the expansion state of a root is resolved by its
  \<^verbatim>\<open>Id\<close> in \<^verbatim>\<open>this.notes\<close>, the prior snapshot: when a prior note has that \<^verbatim>\<open>Id\<close> (the last
  one, should several have it) its value is carried over unchanged; when none has, the root
  gets the default. In \<^verbatim>\<open>note.js\<close> the state is \<^verbatim>\<open>repliesExpanded\<close>, default \<^verbatim>\<open>false\<close>; in
  \<^verbatim>\<open>noteComponent.js\<close> it is \<^verbatim>\<open>repliesExpanded\<close>, default \<^verbatim>\<open>false\<close>, and \<^verbatim>\<open>isExpanded\<close>,
  default \<^verbatim>\<open>true\<close>.
\<close>

theorem expanded_flag_carried_over:
  "(\<forall>tree this' p. note_processNotes env (Array rawNotes) this = (Fulfilled tree, this') \<and>
        p \<in> set tree \<longrightarrow>
      (\<forall>j. last_at (map note_Id (this_notes this)) (note_Id p) j \<longrightarrow>
           repliesExpanded p = repliesExpanded (this_notes this ! j)) \<and>
      (note_Id p \<notin> set (map note_Id (this_notes this)) \<longrightarrow> repliesExpanded p = False)) \<and>
   (\<forall>tree this' p. nc_processNotes env (Array rawNotes) nc_this = (Fulfilled tree, this') \<and>
        p \<in> set tree \<longrightarrow>
      (\<forall>j. last_at (map note_Id (this_notes nc_this)) (note_Id p) j \<longrightarrow>
           repliesExpanded p = repliesExpanded (this_notes nc_this ! j) \<and>
           isExpanded p = isExpanded (this_notes nc_this ! j)) \<and>
      (note_Id p \<notin> set (map note_Id (this_notes nc_this)) \<longrightarrow>
           repliesExpanded p = False \<and> isExpanded p = True))"
proof -
  have a: "(\<forall>j. last_at (map note_Id (this_notes this)) (note_Id p) j \<longrightarrow>
           repliesExpanded p = repliesExpanded (this_notes this ! j)) \<and>
      (note_Id p \<notin> set (map note_Id (this_notes this)) \<longrightarrow> repliesExpanded p = False)"
    if "note_processNotes env (Array rawNotes) this = (Fulfilled tree, this')" "p \<in> set tree"
    for tree this' p
    using note_processNotes_expanded [OF that] currentExpansionStates_lookup by metis
  have b: "(\<forall>j. last_at (map note_Id (this_notes nc_this)) (note_Id p) j \<longrightarrow>
           repliesExpanded p = repliesExpanded (this_notes nc_this ! j) \<and>
           isExpanded p = isExpanded (this_notes nc_this ! j)) \<and>
      (note_Id p \<notin> set (map note_Id (this_notes nc_this)) \<longrightarrow>
           repliesExpanded p = False \<and> isExpanded p = True)"
    if "nc_processNotes env (Array rawNotes) nc_this = (Fulfilled tree, this')" "p \<in> set tree"
    for tree this' p
    using nc_processNotes_expanded [OF that] currentRepliesExpansion_lookup
      currentNoteExpansion_lookup by metis
  show ?thesis using a b by blast
qed

lemma carry_run:
  "note_processNotes carry_env (Array carried_notes) carry_this =
     (Fulfilled carry_tree, snd (note_processNotes carry_env (Array carried_notes) carry_this))"
  "map note_Id carry_tree = [JStr ''R1'', JStr ''R2'']"
  by code_simp+

lemma nc_carry_run:
  "nc_processNotes carry_env (Array carried_notes) nc_carry_this =
     (Fulfilled nc_carry_tree, snd (nc_processNotes carry_env (Array carried_notes) nc_carry_this))"
  "map note_Id nc_carry_tree = [JStr ''R1'', JStr ''R2'']"
  by code_simp+

lemma two_nodes: "map f xs = [a, b] \<Longrightarrow> xs ! 0 \<in> set xs \<and> xs ! 1 \<in> set xs \<and> f (xs ! 0) = a \<and> f (xs ! 1) = b"
  by (cases xs; cases "tl xs") auto

theorem expanded_flag_carried_over_witness:
  "map note_Id (this_notes carry_this) = [JStr ''R1''] \<and>
   repliesExpanded (this_notes carry_this ! 0) = True \<and>
   map note_Id carry_tree = [JStr ''R1'', JStr ''R2''] \<and>
   repliesExpanded (carry_tree ! 0) = True \<and>
   repliesExpanded (carry_tree ! 1) = False \<and>
   isExpanded (this_notes nc_carry_this ! 0) = False \<and>
   map note_Id nc_carry_tree = [JStr ''R1'', JStr ''R2''] \<and>
   repliesExpanded (nc_carry_tree ! 0) = True \<and> isExpanded (nc_carry_tree ! 0) = False \<and>
   repliesExpanded (nc_carry_tree ! 1) = False \<and> isExpanded (nc_carry_tree ! 1) = True"
proof -
  note carried = expanded_flag_carried_over [of carry_env carried_notes carry_this nc_carry_this]
  have prior: "map note_Id (this_notes carry_this) = [JStr ''R1'']"
    "repliesExpanded (this_notes carry_this ! 0) = True"
    "map note_Id (this_notes nc_carry_this) = [JStr ''R1'']"
    "repliesExpanded (this_notes nc_carry_this ! 0) = True"
    "isExpanded (this_notes nc_carry_this ! 0) = False"
    by (simp_all add: carry_this_def nc_carry_this_def prior_root_def nc_prior_root_def)
  have la: "last_at [JStr ''R1''] (JStr ''R1'') 0" "JStr ''R2'' \<notin> set [JStr ''R1'']"
    by (simp_all add: last_at_def)
  note n = two_nodes [OF carry_run(2)]
  note m = two_nodes [OF nc_carry_run(2)]
  have "repliesExpanded (carry_tree ! 0) = True"
    using carried carry_run(1) n prior la by metis
  moreover have "repliesExpanded (carry_tree ! 1) = False"
    using carried carry_run(1) n prior la by metis
  moreover have "repliesExpanded (nc_carry_tree ! 0) = True \<and> isExpanded (nc_carry_tree ! 0) = False"
    using carried nc_carry_run(1) m prior la by metis
  moreover have "repliesExpanded (nc_carry_tree ! 1) = False \<and> isExpanded (nc_carry_tree ! 1) = True"
    using carried nc_carry_run(1) m prior la by metis
  ultimately show ?thesis using prior carry_run(2) nc_carry_run(2) by simp
qed

lemma note_build_state:
  "note_build f raws this = Inr (tree, this') \<Longrightarrow> this_notes this' = this_notes this"
  by (auto simp: note_build_def split: sum.splits)

lemma note_build_reads:
  "this_notes s1 = this_notes s2 \<Longrightarrow>
   map_sum id fst (note_build f raws s1) = map_sum id fst (note_build f raws s2)"
  by (auto simp: note_build_def split: sum.splits)

lemma nc_build_reads:
  "this_notes s1 = this_notes s2 \<Longrightarrow>
   map_sum id fst (nc_build f raws s1) = map_sum id fst (nc_build f raws s2)"
  by (auto simp: nc_build_def split: sum.splits)

lemma note_processNotes_state:
  "this_notes (snd (note_processNotes env rawNotes this)) = this_notes this"
  by (auto simp: note_processNotes_def note_build_def split: sum.splits prod.splits promise.splits)

lemma nc_processNotes_state:
  "this_notes (snd (nc_processNotes env rawNotes this)) = this_notes this"
  by (auto simp: nc_processNotes_def nc_build_def split: sum.splits prod.splits promise.splits)

lemma note_processNotes_reads:
  assumes "this_notes s1 = this_notes s2"
  shows "fst (note_processNotes env rawNotes s1) = fst (note_processNotes env rawNotes s2)"
proof -
  from note_build_reads [OF assms]
  have "map_sum id fst (note_build (toLocaleDateString env) (elements rawNotes) s1) =
        map_sum id fst (note_build (toLocaleDateString env) (elements rawNotes) s2)" .
  then show ?thesis
    by (cases "note_build (toLocaleDateString env) (elements rawNotes) s1";
        cases "note_build (toLocaleDateString env) (elements rawNotes) s2")
       (auto simp: note_processNotes_def split: prod.splits promise.splits)
qed

lemma nc_processNotes_reads:
  assumes "this_notes s1 = this_notes s2"
  shows "fst (nc_processNotes env rawNotes s1) = fst (nc_processNotes env rawNotes s2)"
proof -
  from nc_build_reads [OF assms]
  have "map_sum id fst (nc_build (toLocaleDateString env) (elements rawNotes) s1) =
        map_sum id fst (nc_build (toLocaleDateString env) (elements rawNotes) s2)" .
  then show ?thesis
    by (cases "nc_build (toLocaleDateString env) (elements rawNotes) s1";
        cases "nc_build (toLocaleDateString env) (elements rawNotes) s2")
       (auto simp: nc_processNotes_def split: prod.splits promise.splits)
qed

text \<open>
  C7. A second call of \<^verbatim>\<open>processNotes\<close> on the same list, made in the state the first call
  left, returns what the first returned: the call reads nothing of the component but
  \<^verbatim>\<open>this.notes\<close>, and does not write it. This holds for every prior snapshot, so also for
  none. The third file's \<^verbatim>\<open>processNotes\<close> reads no state at all; loading twice from the same
  result publishes the same tree.
\<close>

theorem processNotes_twice_same_tree:
  "fst (note_processNotes env rawNotes (snd (note_processNotes env rawNotes this))) =
     fst (note_processNotes env rawNotes this) \<and>
   fst (nc_processNotes env rawNotes (snd (nc_processNotes env rawNotes nc_this))) =
     fst (nc_processNotes env rawNotes nc_this) \<and>
   this_notes (plain_loadNotes env (plain_loadNotes env plain_this)) =
     this_notes (plain_loadNotes env plain_this)"
proof -
  have "this_notes (plain_loadNotes env (plain_loadNotes env plain_this)) =
     this_notes (plain_loadNotes env plain_this)"
    by (auto simp: plain_loadNotes_def showToast_def split: promise.splits sum.splits)
  then show ?thesis
    using note_processNotes_reads [OF note_processNotes_state]
      nc_processNotes_reads [OF nc_processNotes_state] by blast
qed

lemma plain_example_loaded:
  "plain_view (this_notes (plain_loadNotes example_env plain_example_this)) =
     [(example_note ''A'' False JNull, [example_note ''B'' True (JStr ''A'')])]"
  by code_simp

theorem processNotes_twice_same_tree_witness:
  "this_notes example_this = [] \<and>
   is_fulfilled (fst (note_processNotes example_env (Array scenario) example_this)) \<and>
   fst (note_processNotes example_env (Array scenario)
         (snd (note_processNotes example_env (Array scenario) example_this))) =
     fst (note_processNotes example_env (Array scenario) example_this) \<and>
   is_fulfilled (fst (nc_processNotes example_env (Array scenario) nc_example_this)) \<and>
   fst (nc_processNotes example_env (Array scenario)
         (snd (nc_processNotes example_env (Array scenario) nc_example_this))) =
     fst (nc_processNotes example_env (Array scenario) nc_example_this) \<and>
   plain_view (this_notes (plain_loadNotes example_env
       (plain_loadNotes example_env plain_example_this))) =
     [(example_note ''A'' False JNull, [example_note ''B'' True (JStr ''A'')])]"
  using processNotes_twice_same_tree [of example_env "Array scenario" example_this
      nc_example_this plain_example_this]
    ex_fulfilled ex_fulfilled_nc plain_example_loaded
  by (simp add: example_this_def)

text \<open>
  C8, as stated, fails: with \<^verbatim>\<open>getNotes\<close> rejected, the promise of \<^verbatim>\<open>loadNotes\<close> is fulfilled
  in \<^verbatim>\<open>note.js\<close> and \<^verbatim>\<open>noteComponent.js\<close>, not rejected, and the third file's \<^verbatim>\<open>loadNotes\<close>
  returns no promise; the failure ends as a toast.
\<close>

theorem loadNotes_rejects_counterexample:
  "getNotes rejecting_env = Rejected (ApexError (JStr ''Server error'') JUndefined) \<and>
   note_loadNotes rejecting_env example_this =
     (Fulfilled (), example_this\<lparr>toasts := [load_failed_toast (JStr ''Server error'')]\<rparr>) \<and>
   nc_loadNotes rejecting_env nc_example_this =
     (Fulfilled (), nc_example_this\<lparr>toasts := [load_failed_toast (JStr ''Server error'')]\<rparr>) \<and>
   plain_loadNotes rejecting_env plain_example_this =
     plain_example_this\<lparr>toasts := [load_failed_toast (JStr ''Server error'')]\<rparr>"
  by code_simp

text \<open>
  C8, amended. When \<^verbatim>\<open>getNotes\<close> is rejected, \<^verbatim>\<open>loadNotes\<close> catches the failure: in
  \<^verbatim>\<open>note.js\<close> and \<^verbatim>\<open>noteComponent.js\<close> it dispatches the error toast, sets \<^verbatim>\<open>this.notes\<close> to the
  empty list, clears \<^verbatim>\<open>isLoading\<close> and fulfils its promise; in the third file it dispatches
  the toast and leaves \<^verbatim>\<open>this.notes\<close> as it was.
\<close>

theorem loadNotes_fetch_failure:
  assumes "getNotes env = Rejected error"
    and "truthy (recordId this)" and "truthy (objectApiName this)"
    and "truthy (recordId nc_this)" and "truthy (objectApiName nc_this)"
    and "truthy (recordId plain_this)" and "truthy (objectApiName plain_this)"
  shows
    "note_loadNotes env this =
       (Fulfilled (),
        this\<lparr>this_notes := [], loading := False,
             toasts := toasts this @ [load_failed_toast (getErrorMessage error)]\<rparr>) \<and>
     nc_loadNotes env nc_this =
       (Fulfilled (),
        nc_this\<lparr>this_notes := [], loading := False,
             toasts := toasts nc_this @ [load_failed_toast (getErrorMessage error)]\<rparr>) \<and>
     plain_loadNotes env plain_this =
       plain_this\<lparr>toasts := toasts plain_this @ [load_failed_toast (plain_getErrorMessage error)]\<rparr>"
  using assms
  by (simp add: note_loadNotes_def nc_loadNotes_def plain_loadNotes_def loadNotes_catch_def
      showToast_def load_failed_toast_def)

lemma rejecting_env_facts:
  "getNotes rejecting_env = Rejected (ApexError (JStr ''Server error'') JUndefined)"
  "truthy (recordId example_this)" "truthy (objectApiName example_this)"
  "truthy (recordId nc_example_this)" "truthy (objectApiName nc_example_this)"
  "truthy (recordId plain_example_this)" "truthy (objectApiName plain_example_this)"
  by code_simp+

theorem loadNotes_fetch_failure_witness:
  "getNotes rejecting_env = Rejected (ApexError (JStr ''Server error'') JUndefined) \<and>
   truthy (recordId example_this) \<and> truthy (objectApiName example_this) \<and>
   fst (note_loadNotes rejecting_env example_this) = Fulfilled () \<and>
   this_notes (snd (note_loadNotes rejecting_env example_this)) = [] \<and>
   map toast_message (toasts (snd (note_loadNotes rejecting_env example_this))) =
     [''Failed to load notes: Server error''] \<and>
   fst (nc_loadNotes rejecting_env nc_example_this) = Fulfilled () \<and>
   map toast_message (toasts (plain_loadNotes rejecting_env plain_example_this)) =
     [''Failed to load notes: Server error'']"
  using loadNotes_fetch_failure [OF rejecting_env_facts] rejecting_env_facts
  by (simp add: getErrorMessage_def plain_getErrorMessage_def load_failed_toast_def
      example_this_def nc_example_this_def plain_example_this_def)

lemma firstPass_total_on:
  "(\<And>n. n \<in> set raws \<Longrightarrow> is_root n \<Longrightarrow> \<exists>p. mk n = Inr p) \<Longrightarrow>
   \<exists>st'. firstPass mk raws st = Inr st'"
proof (induction mk raws st rule: firstPass.induct)
  case (1 mk st)
  then show ?case by simp
next
  case (2 mk n rest noteMap parentNotes)
  show ?case
  proof (cases "truthy (Is_Reply__c n)")
    case True
    then show ?thesis using "2.IH"(2) "2.prems" by simp
  next
    case False
    then obtain p where p: "mk n = Inr p" using "2.prems" [of n] by (auto simp: is_root_def)
    then show ?thesis using False "2.IH"(1) [OF False p] "2.prems" by simp
  qed
qed

lemma firstPass_throws:
  "n \<in> set raws \<Longrightarrow> is_root n \<Longrightarrow> mk n = Inl e \<Longrightarrow> \<exists>e'. firstPass mk raws st = Inl e'"
proof (induction mk raws st rule: firstPass.induct)
  case (1 mk st)
  then show ?case by simp
next
  case (2 mk m rest noteMap parentNotes)
  show ?case
  proof (cases "m = n")
    case True
    then show ?thesis using "2.prems" by (simp add: is_root_def)
  next
    case False
    then have "n \<in> set rest" using "2.prems" by simp
    then show ?thesis using "2.IH" "2.prems"
      by (cases "mk m") (auto simp: is_root_def)
  qed
qed

text \<open>
  \<^verbatim>\<open>processNotes\<close> of \<^verbatim>\<open>note.js\<close> throws exactly when some root record has no title; the
  other two files never throw.
\<close>

lemma note_mkParent_throws:
  "(\<exists>e. note_mkParent f m n = Inl e) = (Title__c n = JUndefined \<or> Title__c n = JNull)"
  by (cases "Title__c n") (auto simp: note_mkParent_def titlePadding_def Let_def)

lemma note_build_throws_iff:
  "(\<exists>e. note_build f raws this = Inl e) =
     (\<exists>n \<in> set raws. is_root n \<and> (Title__c n = JUndefined \<or> Title__c n = JNull))"
proof
  let ?mk = "note_mkParent f (currentExpansionStates (this_notes this))"
  assume "\<exists>e. note_build f raws this = Inl e"
  then have no: "\<not> (\<exists>st'. firstPass ?mk raws (Map.empty, []) = Inr st')"
    by (auto simp: note_build_def split: sum.splits)
  have "\<exists>n \<in> set raws. is_root n \<and> \<not> (\<exists>p. ?mk n = Inr p)"
    using firstPass_total_on [of raws ?mk "(Map.empty, [])"] no by blast
  then obtain n where n: "n \<in> set raws" "is_root n" "\<exists>e. ?mk n = Inl e"
    by (metis sum.exhaust)
  then show "\<exists>n \<in> set raws. is_root n \<and> (Title__c n = JUndefined \<or> Title__c n = JNull)"
    using note_mkParent_throws by blast
next
  let ?mk = "note_mkParent f (currentExpansionStates (this_notes this))"
  assume "\<exists>n \<in> set raws. is_root n \<and> (Title__c n = JUndefined \<or> Title__c n = JNull)"
  then obtain n e where n: "n \<in> set raws" "is_root n" "?mk n = Inl e"
    using note_mkParent_throws by blast
  obtain e' where "firstPass ?mk raws (Map.empty, []) = Inl e'"
    using firstPass_throws [of n raws ?mk e "(Map.empty, [])", OF n] by blast
  then show "\<exists>e. note_build f raws this = Inl e"
    by (simp add: note_build_def)
qed

lemma plain_processNotes_total: "\<exists>tree. plain_processNotes rawNotes = Inr tree"
  using plain_processNotes_view [of "elements rawNotes"]
  by (cases rawNotes) (auto simp: plain_processNotes_def)

text \<open>
  C9 fails in \<^verbatim>\<open>note.js\<close>: on a list holding one root record without a title,
  \<^verbatim>\<open>note.Title__c.length\<close> throws, the promise of \<^verbatim>\<open>processNotes\<close> is rejected, and
  \<^verbatim>\<open>loadNotes\<close> replaces the notes by the empty list and shows an error toast. The other
  two files build the tree from the same list (\<open>nc_build_total\<close>,
  \<open>plain_processNotes_total\<close>).
\<close>

theorem note_processNotes_rejects_untitled_root:
  "note_processNotes env (Array [untitled_note]) this = (Rejected undefined_length, this) \<and>
   (getNotes env = Fulfilled (Array [untitled_note]) \<and> truthy (recordId this) \<and>
    truthy (objectApiName this) \<longrightarrow>
      note_loadNotes env this =
        (Fulfilled (),
         this\<lparr>this_notes := [], loading := False,
              toasts := toasts this @ [load_failed_toast (getErrorMessage undefined_length)]\<rparr>))"
proof -
  have b: "note_build f [untitled_note] s = Inl undefined_length" for f s
    by (simp add: note_build_def untitled_note_def example_note_def note_mkParent_def
        titlePadding_def undefined_length_def Let_def)
  then have p: "note_processNotes env (Array [untitled_note]) s = (Rejected undefined_length, s)" for s
    by (simp add: note_processNotes_def)
  show ?thesis
    by (simp add: p note_loadNotes_def loadNotes_catch_def showToast_def load_failed_toast_def)
qed

lemma untitled_env_facts:
  "getNotes untitled_env = Fulfilled (Array [untitled_note])"
  "truthy (recordId example_this)" "truthy (objectApiName example_this)"
  by code_simp+

lemma untitled_siblings:
  "map note_Id (this_notes (plain_loadNotes untitled_env plain_example_this)) = [JStr ''A'']"
  "map note_Id (this_notes (snd (nc_loadNotes untitled_env nc_example_this))) = [JStr ''A'']"
  "map titleWithDate (this_notes (snd (nc_loadNotes untitled_env nc_example_this))) =
     [''undefined - Jan 01, 2024, 12:00 AM'']"
  by code_simp+

theorem note_processNotes_rejects_untitled_root_witness:
  "getNotes untitled_env = Fulfilled (Array [untitled_note]) \<and>
   fst (note_processNotes untitled_env (Array [untitled_note]) example_this) =
     Rejected undefined_length \<and>
   fst (note_loadNotes untitled_env example_this) = Fulfilled () \<and>
   this_notes (snd (note_loadNotes untitled_env example_this)) = [] \<and>
   map toast_title (toasts (snd (note_loadNotes untitled_env example_this))) = [''Error''] \<and>
   map note_Id (this_notes (snd (nc_loadNotes untitled_env nc_example_this))) = [JStr ''A''] \<and>
   map note_Id (this_notes (plain_loadNotes untitled_env plain_example_this)) = [JStr ''A'']"
  using note_processNotes_rejects_untitled_root [of untitled_env example_this]
    untitled_env_facts untitled_siblings
  by (simp add: load_failed_toast_def example_this_def)

end
